theory Spec2Isabelle
  imports Main "HOL-Library.AList"
begin

section \<open>Tabbed output view (web/components/chat/chat-content/vis-tabs.tsx)\<close>

text \<open>
  One agent-output record, as the type \<^verbatim>\<open>VisTabsData\<close> declares it. The ordinal
  \<^verbatim>\<open>num\<close> is never read by the component; it is kept as an integer.
\<close>

record VisTabsData =
  name :: string
  status :: string
  num :: int
  task_id :: string
  agent :: string
  avatar :: string
  markdown :: string

text \<open>
  \<^verbatim>\<open>data.length > 0 ? data[data.length - 1].task_id : ''\<close>
\<close>

definition getLastActiveKey :: "VisTabsData list \<Rightarrow> string" where
  "getLastActiveKey data =
     (if length data > 0 then task_id (data ! (length data - 1)) else [])"

text \<open>
  The state of one mounted \<^verbatim>\<open>VisTabs\<close> component: the \<^verbatim>\<open>data\<close> prop of its latest
  render and the two \<^verbatim>\<open>useState\<close> cells. The listener of \<^verbatim>\<open>EVENTS.TASK_CLICK\<close> is
  registered by an effect whose dependency list is empty, so it is the closure of the
  first render for as long as the component lives: the \<^verbatim>\<open>data\<close> that this closure's
  \<^verbatim>\<open>setTabActiveByUser\<close> reads is the prop of the first render, kept in \<open>listener_data\<close>.
\<close>

record VisTabs =
  data :: "VisTabsData list"
  activeKey :: string
  isUserActive :: bool
  listener_data :: "VisTabsData list"

text \<open>
  \<^verbatim>\<open>setTabActiveByUser(key)\<close>, with the \<^verbatim>\<open>data\<close> its closure sees as a parameter.
\<close>

definition setTabActiveByUser :: "VisTabsData list \<Rightarrow> string \<Rightarrow> VisTabs \<Rightarrow> VisTabs" where
  "setTabActiveByUser closure_data key s =
     (let s1 = (if key = getLastActiveKey closure_data
                then s\<lparr>isUserActive := False\<rparr>
                else s\<lparr>isUserActive := True\<rparr>)
      in s1\<lparr>activeKey := key\<rparr>)"

text \<open>
  The first render: \<^verbatim>\<open>useState(getLastActiveKey(data))\<close>, \<^verbatim>\<open>useState(false)\<close>, then the
  two effects (the first one stores the same key again, the second one registers the
  listener).
\<close>

definition mount :: "VisTabsData list \<Rightarrow> VisTabs" where
  "mount d =
     (let s = \<lparr>data = d, activeKey = getLastActiveKey d, isUserActive = False,
                listener_data = d\<rparr>
      in if \<not> isUserActive s then s\<lparr>activeKey := getLastActiveKey d\<rparr> else s)"

text \<open>
  The events of the component, each handled to completion before the next one:
  a render with a new \<^verbatim>\<open>data\<close> prop (which runs the effect that depends on \<^verbatim>\<open>data\<close>),
  the \<^verbatim>\<open>onChange\<close> of the tab strip (the \<^verbatim>\<open>setTabActiveByUser\<close> of the current render),
  and an emitted \<^verbatim>\<open>TASK_CLICK\<close> (the listener of the first render).
\<close>

datatype event =
    NewData "VisTabsData list"
  | TabChange string
  | TaskClick string

fun step :: "VisTabs \<Rightarrow> event \<Rightarrow> VisTabs" where
  "step s (NewData d) =
     (let s1 = s\<lparr>data := d\<rparr>
      in if \<not> isUserActive s1 then s1\<lparr>activeKey := getLastActiveKey d\<rparr> else s1)"
| "step s (TabChange key) = setTabActiveByUser (data s) key s"
| "step s (TaskClick taskId) = setTabActiveByUser (listener_data s) taskId s"

definition run :: "VisTabs \<Rightarrow> event list \<Rightarrow> VisTabs" where
  "run s es = foldl step s es"

text \<open>Events of the tab strip itself: data arrivals and direct tab selections.\<close>

fun tab_strip_event :: "event \<Rightarrow> bool" where
  "tab_strip_event (NewData d) = True"
| "tab_strip_event (TabChange key) = True"
| "tab_strip_event (TaskClick taskId) = False"

fun data_event :: "event \<Rightarrow> bool" where
  "data_event (NewData d) = True"
| "data_event (TabChange key) = False"
| "data_event (TaskClick taskId) = False"

text \<open>A record that carries only a task id, for concrete runs.\<close>

definition tab :: "string \<Rightarrow> VisTabsData" where
  "tab t = \<lparr>name = [], status = [], num = 0, task_id = t, agent = [], avatar = [],
            markdown = []\<rparr>"

section \<open>JavaScript strings and regular expressions\<close>

text \<open>
  A JavaScript string is a sequence of UTF-16 code units; here it is a list of
  \<^typ>\<open>char\<close>. Every pattern of the component is made of ASCII characters and negated
  one-character classes, so the width of a code unit plays no part in what follows.
\<close>

text \<open>\<^verbatim>\<open>String.prototype.split\<close> with a literal separator.\<close>

function split_from :: "string \<Rightarrow> string \<Rightarrow> string \<Rightarrow> string list" where
  "split_from sep cur [] = [cur]"
| "split_from sep cur (c # cs) =
     (if sep \<noteq> [] \<and> take (length sep) (c # cs) = sep
      then cur # split_from sep [] (drop (length sep) (c # cs))
      else split_from sep (cur @ [c]) cs)"
  by pat_completeness auto
termination
  by (relation "measure (\<lambda>(sep, cur, s). length s)") auto

definition split :: "string \<Rightarrow> string \<Rightarrow> string list" where
  "split sep s = (if sep = [] then map (\<lambda>c. [c]) s else split_from sep [] s)"

text \<open>\<^verbatim>\<open>String.prototype.replaceAll\<close> with a literal pattern and a literal replacement.\<close>

function replaceAll :: "string \<Rightarrow> string \<Rightarrow> string \<Rightarrow> string" where
  "replaceAll pat rep [] = (if pat = [] then rep else [])"
| "replaceAll pat rep (c # cs) =
     (if pat = [] then rep @ c # replaceAll pat rep cs
      else if take (length pat) (c # cs) = pat
           then rep @ replaceAll pat rep (drop (length pat) (c # cs))
           else c # replaceAll pat rep cs)"
  by pat_completeness auto
termination
  by (relation "measure (\<lambda>(pat, rep, s). length s)") auto

text \<open>
  A global regular expression cuts a string into the characters it skips and the
  fragments it matches, from left to right, each match starting where the previous one
  ended. A pattern is given by its matcher: the length of the match that starts at the
  head of a string, if there is one. No pattern of the component matches the empty
  string.
\<close>

datatype seg = Lit char | Match string

function regex_scan :: "(string \<Rightarrow> nat option) \<Rightarrow> string \<Rightarrow> seg list" where
  "regex_scan re [] = []"
| "regex_scan re (c # cs) =
     (case re (c # cs) of
        None \<Rightarrow> Lit c # regex_scan re cs
      | Some n \<Rightarrow>
          if 0 < n then Match (take n (c # cs)) # regex_scan re (drop n (c # cs))
          else Lit c # regex_scan re cs)"
  by pat_completeness auto
termination
  by (relation "measure (\<lambda>(re, s). length s)") auto

text \<open>
  \<^verbatim>\<open>String.prototype.replace\<close> with a global pattern and a replacer function: the
  matches are collected first, then the replacer is called on each in order. The
  replacer of the component writes to variables of the enclosing function, so it takes
  and returns their state.
\<close>

fun replace_segs :: "(string \<Rightarrow> 's \<Rightarrow> string \<times> 's) \<Rightarrow> seg list \<Rightarrow> 's \<Rightarrow> string \<times> 's" where
  "replace_segs f [] st = ([], st)"
| "replace_segs f (Lit c # segs) st =
     (let (out, st1) = replace_segs f segs st in (c # out, st1))"
| "replace_segs f (Match m # segs) st =
     (let (r, st1) = f m st; (out, st2) = replace_segs f segs st1 in (r @ out, st2))"

definition replace_with ::
  "(string \<Rightarrow> nat option) \<Rightarrow> (string \<Rightarrow> 's \<Rightarrow> string \<times> 's) \<Rightarrow> string \<Rightarrow> 's \<Rightarrow> string \<times> 's" where
  "replace_with re f s st = replace_segs f (regex_scan re s) st"

text \<open>The same with a replacer that has no effect (a replacement pattern).\<close>

fun seg_text :: "(string \<Rightarrow> string) \<Rightarrow> seg \<Rightarrow> string" where
  "seg_text g (Lit c) = [c]"
| "seg_text g (Match m) = g m"

definition replace_pure :: "(string \<Rightarrow> nat option) \<Rightarrow> (string \<Rightarrow> string) \<Rightarrow> string \<Rightarrow> string" where
  "replace_pure re g s = concat (map (seg_text g) (regex_scan re s))"

text \<open>
  The flag \<^verbatim>\<open>i\<close> without the flag \<^verbatim>\<open>u\<close>: a pattern letter matches itself in either
  case, and no character outside ASCII.
\<close>

definition lower_ascii :: "char \<Rightarrow> char" where
  "lower_ascii c =
     (case map_of (zip ''ABCDEFGHIJKLMNOPQRSTUVWXYZ'' ''abcdefghijklmnopqrstuvwxyz'') c of
        None \<Rightarrow> c
      | Some l \<Rightarrow> l)"

definition starts_with_ci :: "string \<Rightarrow> string \<Rightarrow> bool" where
  "starts_with_ci pat s =
     (length pat \<le> length s \<and> map lower_ascii (take (length pat) s) = map lower_ascii pat)"

text \<open>The class \<^verbatim>\<open>\w\<close>.\<close>

definition is_word :: "char \<Rightarrow> bool" where
  "is_word c =
     (c \<in> set ''abcdefghijklmnopqrstuvwxyzABCDEFGHIJKLMNOPQRSTUVWXYZ0123456789_'')"

text \<open>
  The embedded-view pattern \<^verbatim>\<open>/<dbgpt-view[^>]*>[^<]*<\/dbgpt-view>/gi\<close>. Both starred
  classes are greedy and each is followed by the one character it excludes, so a match
  is found without backtracking: the attributes run up to the first closing angle
  bracket, the body up to the first opening one, where the closing tag must stand.
\<close>

definition view_tag_at :: "string \<Rightarrow> nat option" where
  "view_tag_at s =
     (if \<not> starts_with_ci ''<dbgpt-view'' s then None
      else
        let s1 = drop (length ''<dbgpt-view'') s;
            attrs = takeWhile (\<lambda>c. c \<noteq> CHR ''>'') s1;
            s2 = drop (length attrs) s1
        in if s2 = [] then None
           else
             let s3 = tl s2;
                 body = takeWhile (\<lambda>c. c \<noteq> CHR ''<'') s3;
                 s4 = drop (length body) s3
             in if starts_with_ci ''</dbgpt-view>'' s4
                then Some (length ''<dbgpt-view'' + length attrs + 1 + length body
                           + length ''</dbgpt-view>'')
                else None)"

text \<open>
  The tag pattern \<^verbatim>\<open>/<[^>]*>|<\/[^>]*>/gm\<close>. Whatever the second alternative matches,
  the first one matches at the same place and is tried first; the flag \<^verbatim>\<open>m\<close> changes
  nothing in a pattern without anchors.
\<close>

definition any_tag_at :: "string \<Rightarrow> nat option" where
  "any_tag_at s =
     (case s of
        [] \<Rightarrow> None
      | c # cs \<Rightarrow>
          if c \<noteq> CHR ''<'' then None
          else
            let inner = takeWhile (\<lambda>c. c \<noteq> CHR ''>'') cs
            in if drop (length inner) cs = [] then None else Some (1 + length inner + 1))"

text \<open>
  The patterns \<^verbatim>\<open>/<table(\w*=[^>]+)>/gi\<close> and \<^verbatim>\<open>/<tr(\w*=[^>]+)>/gi\<close>, for the tag
  name given as \<open>tag\<close>: word characters, an equals sign, at least one character other
  than a closing angle bracket, and that bracket.
\<close>

definition glued_attr_at :: "string \<Rightarrow> string \<Rightarrow> nat option" where
  "glued_attr_at tag s =
     (if \<not> starts_with_ci tag s then None
      else
        let s1 = drop (length tag) s;
            w = takeWhile is_word s1;
            s2 = drop (length w) s1
        in case s2 of
             [] \<Rightarrow> None
           | c # s3 \<Rightarrow>
               if c \<noteq> CHR ''='' then None
               else
                 let v = takeWhile (\<lambda>c. c \<noteq> CHR ''>'') s3
                 in if v = [] \<or> drop (length v) s3 = [] then None
                    else Some (length tag + length w + 1 + length v + 1))"

text \<open>
  The replacement pattern \<^verbatim>\<open>'<table $1>'\<close> (and \<^verbatim>\<open>'<tr $1>'\<close>): the group is the
  match without the tag name in front and the bracket at the end.
\<close>

definition spaced_attr :: "string \<Rightarrow> string \<Rightarrow> string" where
  "spaced_attr tag m = tag @ '' '' @ butlast (drop (length tag) m) @ ''>''"

text \<open>Decimal digits of a count, as a template literal prints a small integer.\<close>

fun show_nat :: "nat \<Rightarrow> string" where
  "show_nat n =
     (if n < 10 then [''0123456789'' ! n]
      else show_nat (n div 10) @ [''0123456789'' ! (n mod 10)])"

section \<open>Chat content (the component ChatContent, which follows the manifest in
  packages/derisk-app/pyproject.toml)\<close>

text \<open>
  \<^verbatim>\<open>formatMarkdownVal\<close>: two-character sequences of a backslash and an \<^verbatim>\<open>n\<close> become
  line feeds, then the two tag patterns are applied.
\<close>

definition formatMarkdownVal :: "string \<Rightarrow> string" where
  "formatMarkdownVal val =
     replace_pure (glued_attr_at ''<tr'') (spaced_attr ''<tr'')
       (replace_pure (glued_attr_at ''<table'') (spaced_attr ''<table'')
          (replaceAll [CHR 0x5C, CHR ''n''] [CHR 0x0A] val))"

text \<open>
  What \<^verbatim>\<open>JSON.parse\<close> returns. Numbers are doubles; their type is left open, and the
  only operation on them (printing one as a property key) is a parameter where it is
  needed. An object is the list of its own properties, read with \<^const>\<open>map_of\<close>.
\<close>

datatype 'n json =
    JNull
  | JBool bool
  | JNum 'n
  | JStr string
  | JArr "'n json list"
  | JObj "(string \<times> 'n json) list"

datatype js_error = SyntaxError | TypeError

text \<open>
  Reading a member that is neither an index, nor \<^verbatim>\<open>length\<close>, nor inherited from a
  prototype (the component reads \<^verbatim>\<open>result\<close>, \<^verbatim>\<open>name\<close>, \<^verbatim>\<open>status\<close>, \<^verbatim>\<open>err_msg\<close>,
  \<^verbatim>\<open>left\<close> and \<^verbatim>\<open>right\<close>): a \<^verbatim>\<open>TypeError\<close> on \<^verbatim>\<open>null\<close>, \<^verbatim>\<open>undefined\<close> (here
  \<^const>\<open>None\<close>) on a value that has no such property.
\<close>

fun member :: "string \<Rightarrow> 'n json \<Rightarrow> js_error + 'n json option" where
  "member k JNull = Inl TypeError"
| "member k (JObj props) = Inr (map_of props k)"
| "member k v = Inr None"

text \<open>The operator \<^verbatim>\<open>??\<close> with a string on its right.\<close>

fun nullish_or :: "'n json option \<Rightarrow> string \<Rightarrow> 'n json" where
  "nullish_or None d = JStr d"
| "nullish_or (Some JNull) d = JStr d"
| "nullish_or (Some v) d = v"

text \<open>
  The own enumerable properties that an object spread copies: those of an object, the
  elements of an array and the code units of a string under their indices, none of a
  number, a boolean or \<^verbatim>\<open>null\<close>.
\<close>

fun spread :: "'n json \<Rightarrow> (string \<times> 'n json) list" where
  "spread (JObj props) = props"
| "spread (JArr xs) = zip (map show_nat [0..<length xs]) xs"
| "spread (JStr s) = zip (map show_nat [0..<length s]) (map (\<lambda>c. JStr [c]) s)"
| "spread v = []"

text \<open>
  The argument of \<^verbatim>\<open>cachePluginContext.push\<close>:
  \<^verbatim>\<open>{ ...pluginContext, result: formatMarkdownVal(pluginContext.result ?? '') }\<close>.
  \<^verbatim>\<open>formatMarkdownVal\<close> calls \<^verbatim>\<open>replaceAll\<close> on its argument, which only a string has.
\<close>

definition cache_entry :: "'n json \<Rightarrow> js_error + 'n json" where
  "cache_entry pluginContext =
     (case member ''result'' pluginContext of
        Inl e \<Rightarrow> Inl e
      | Inr r \<Rightarrow>
          (case nullish_or r [] of
             JStr val \<Rightarrow>
               Inr (JObj (AList.update ''result'' (JStr (formatMarkdownVal val))
                            (spread pluginContext)))
           | _ \<Rightarrow> Inl TypeError))"

text \<open>
  The variables of the function given to \<^verbatim>\<open>useMemo\<close>; the returned object holds
  \<^verbatim>\<open>relations\<close>, \<^verbatim>\<open>cachePluginContext\<close> and, as \<^verbatim>\<open>value\<close>, the replaced text (the
  field \<open>valueText\<close> here, \<^verbatim>\<open>value\<close> being a keyword of Isabelle). What is written to
  the console is kept as the list of the errors logged.
\<close>

record 'n memo =
  relations :: "string list"
  valueText :: string
  cacheIndex :: nat
  cachePluginContext :: "'n json list"
  console :: "js_error list"

definition placeholder :: "nat \<Rightarrow> string" where
  "placeholder i = ''<custom-view>'' @ show_nat i @ ''</custom-view>''"

text \<open>The payload handed to \<^verbatim>\<open>JSON.parse\<close>.\<close>

definition pluginVal :: "string \<Rightarrow> string" where
  "pluginVal matchVal =
     replace_pure any_tag_at (\<lambda>m. []) (replaceAll [CHR 0x0A] [CHR 0x5C, CHR ''n''] matchVal)"

text \<open>
  The body of the \<^verbatim>\<open>try\<close> block of the replacer, with \<^verbatim>\<open>JSON.parse\<close> as the parameter
  \<open>parse\<close> (\<^const>\<open>None\<close> when it throws its \<^verbatim>\<open>SyntaxError\<close>), and the replacer with its
  \<^verbatim>\<open>catch\<close>.
\<close>

definition try_replace ::
  "(string \<Rightarrow> 'n json option) \<Rightarrow> string \<Rightarrow> 'n memo \<Rightarrow> js_error + string \<times> 'n memo" where
  "try_replace parse matchVal st =
     (case parse (pluginVal matchVal) of
        None \<Rightarrow> Inl SyntaxError
      | Some pluginContext \<Rightarrow>
          let replacement = placeholder (cacheIndex st)
          in case cache_entry pluginContext of
               Inl e \<Rightarrow> Inl e
             | Inr entry \<Rightarrow>
                 Inr (replacement,
                      st\<lparr>cachePluginContext := cachePluginContext st @ [entry],
                         cacheIndex := cacheIndex st + 1\<rparr>))"

definition replacer ::
  "(string \<Rightarrow> 'n json option) \<Rightarrow> string \<Rightarrow> 'n memo \<Rightarrow> string \<times> 'n memo" where
  "replacer parse matchVal st =
     (case try_replace parse matchVal st of
        Inr r \<Rightarrow> r
      | Inl e \<Rightarrow> (matchVal, st\<lparr>console := console st @ [e]\<rparr>))"

text \<open>
  The \<^verbatim>\<open>context\<close> of a message: a string, or an object that names a template.
\<close>

datatype message_context = Text string | Template string string

definition relations_marker :: string where
  "relations_marker = CHR 0x09 # ''relations:''"

text \<open>
  The function given to \<^verbatim>\<open>useMemo\<close>. The array that \<^verbatim>\<open>split\<close> returns for a
  separator that is not empty has at least one element (\<open>split_from_not_Nil\<close> below),
  so that \<^verbatim>\<open>value\<close>, its first element, is a string.
\<close>

definition extract_views :: "(string \<Rightarrow> 'n json option) \<Rightarrow> message_context \<Rightarrow> 'n memo" where
  "extract_views parse ctxt =
     (case ctxt of
        Template template_name template_introduce \<Rightarrow>
          \<lparr>relations = [], valueText = [], cacheIndex = 0, cachePluginContext = [],
           console = []\<rparr>
      | Text text \<Rightarrow>
          let parts = split relations_marker text;
              val = hd parts;
              rels = (case tl parts of
                        [] \<Rightarrow> []
                      | relation # _ \<Rightarrow> if relation = [] then [] else split '','' relation);
              st0 = \<lparr>relations = rels, valueText = [], cacheIndex = 0,
                     cachePluginContext = [], console = []\<rparr>;
              (result, st1) = replace_with view_tag_at (replacer parse) val st0
          in st1\<lparr>valueText := result\<rparr>)"

subsection \<open>The status mapper and the renderer of a placeholder\<close>

datatype icon_node = ClockCircleOutlined | LoadingOutlined | CloseOutlined | CheckOutlined

definition pluginViewStatusMapper :: "(string \<times> string \<times> icon_node) list" where
  "pluginViewStatusMapper =
     [(''todo'', ''bg-gray-500'', ClockCircleOutlined),
      (''runing'', ''bg-blue-500'', LoadingOutlined),
      (''failed'', ''bg-red-500'', CloseOutlined),
      (''completed'', ''bg-green-500'', CheckOutlined)]"

text \<open>
  \<^verbatim>\<open>const { bgClass, icon } = pluginViewStatusMapper[status] ?? {}\<close>, for the property
  key that \<^verbatim>\<open>status\<close> converts to. An absent member is \<^verbatim>\<open>undefined\<close>, here
  \<^const>\<open>None\<close>. (A key that the table only inherits from \<^verbatim>\<open>Object.prototype\<close> yields a
  value with neither member, which destructures like the empty object.)
\<close>

record status_style =
  bgClass :: "string option"
  icon :: "icon_node option"

definition status_lookup :: "string \<Rightarrow> status_style" where
  "status_lookup key =
     (case map_of pluginViewStatusMapper key of
        None \<Rightarrow> \<lparr>bgClass = None, icon = None\<rparr>
      | Some (b, i) \<Rightarrow> \<lparr>bgClass = Some b, icon = Some i\<rparr>)"

text \<open>
  The conversion of a value to a string (and so to a property key), with the printing
  of a number as the parameter \<open>num_text\<close>. An array prints its elements separated by
  commas, \<^verbatim>\<open>null\<close> elements as nothing. An object prints through the \<^verbatim>\<open>toString\<close> it
  inherits; when it has a member of its own with that name, which in a parsed value is
  never a function, the conversion goes on to \<^verbatim>\<open>valueOf\<close>, gets no primitive value
  there either, and throws a \<^verbatim>\<open>TypeError\<close>.
\<close>

fun join :: "string \<Rightarrow> string list \<Rightarrow> string" where
  "join sep [] = []"
| "join sep [x] = x"
| "join sep (x # y # ys) = x @ sep @ join sep (y # ys)"

fun bind_err :: "'e + 'a \<Rightarrow> ('a \<Rightarrow> 'e + 'b) \<Rightarrow> 'e + 'b" where
  "bind_err (Inl e) f = Inl e"
| "bind_err (Inr x) f = f x"

text \<open>The results of a list of steps, or the first error among them.\<close>

fun all_or_error :: "('e + 'a) list \<Rightarrow> 'e + 'a list" where
  "all_or_error [] = Inr []"
| "all_or_error (r # rs) =
     bind_err r (\<lambda>x. bind_err (all_or_error rs) (\<lambda>xs. Inr (x # xs)))"

fun to_text :: "('n \<Rightarrow> string) \<Rightarrow> 'n json \<Rightarrow> js_error + string" where
  "to_text num_text JNull = Inr ''null''"
| "to_text num_text (JBool b) = Inr (if b then ''true'' else ''false'')"
| "to_text num_text (JNum n) = Inr (num_text n)"
| "to_text num_text (JStr s) = Inr s"
| "to_text num_text (JArr xs) =
     bind_err
       (all_or_error (map (\<lambda>x. if x = JNull then Inr [] else to_text num_text x) xs))
       (\<lambda>parts. Inr (join '','' parts))"
| "to_text num_text (JObj props) =
     (if map_of props ''toString'' = None then Inr ''[object Object]'' else Inl TypeError)"

fun property_key :: "('n \<Rightarrow> string) \<Rightarrow> 'n json option \<Rightarrow> js_error + string" where
  "property_key num_text None = Inr ''undefined''"
| "property_key num_text (Some v) = to_text num_text v"

text \<open>
  The conversion to a boolean. Of the numbers \<^verbatim>\<open>JSON.parse\<close> returns, only zero and
  its negative are falsy, and only they print as \<^verbatim>\<open>0\<close>.
\<close>

fun truthy :: "('n \<Rightarrow> string) \<Rightarrow> 'n json option \<Rightarrow> bool" where
  "truthy num_text None = False"
| "truthy num_text (Some JNull) = False"
| "truthy num_text (Some (JBool b)) = b"
| "truthy num_text (Some (JNum n)) = (num_text n \<noteq> ''0'')"
| "truthy num_text (Some (JStr s)) = (s \<noteq> [])"
| "truthy num_text (Some (JArr xs)) = True"
| "truthy num_text (Some (JObj props)) = True"

text \<open>\<^verbatim>\<open>classNames(base, bgClass)\<close>: the truthy arguments, separated by a space.\<close>

definition classNames :: "string \<Rightarrow> string option \<Rightarrow> string" where
  "classNames base extra =
     join '' '' (filter (\<lambda>c. c \<noteq> []) (base # (case extra of None \<Rightarrow> [] | Some c \<Rightarrow> [c])))"

text \<open>
  What the component registered for \<^verbatim>\<open>custom-view\<close> returns: its \<^verbatim>\<open>children\<close> as they
  came, or the view of a cache entry (the class of its header, the name and the icon in
  the header, and below either the markdown of \<^verbatim>\<open>result\<close> or \<^verbatim>\<open>err_msg\<close>).
\<close>

datatype 'n view_body = Markdown "'n json option" | ErrMsg "'n json option"

record 'n plugin_view =
  header_class :: string
  header_name :: "'n json option"
  header_icon :: "icon_node option"
  body :: "'n view_body"

datatype 'n rendered = Children string | View "'n plugin_view"

text \<open>\<^verbatim>\<open>cachePluginContext[index]\<close>, for the array index a number stands for, if any.\<close>

fun element :: "'a list \<Rightarrow> nat option \<Rightarrow> 'a option" where
  "element xs None = None"
| "element xs (Some i) = (if i < length xs then Some (xs ! i) else None)"

text \<open>
  The component, given the text of its \<^verbatim>\<open>children\<close> (what stands between the tags
  of the placeholder in the processed text). The parameter \<open>to_index\<close> stands
  for the unary plus of \<^verbatim>\<open>+children.toString()\<close> followed by the conversion of the
  number to a property key of the array: the index, when the text denotes a number
  that is an array index, and \<^const>\<open>None\<close> for any other text.
\<close>

definition custom_view ::
  "('n \<Rightarrow> string) \<Rightarrow> (string \<Rightarrow> nat option) \<Rightarrow> 'n json list \<Rightarrow> string \<Rightarrow> js_error + 'n rendered" where
  "custom_view num_text to_index cache children =
     (let index = to_index children
      in case element cache index of
           None \<Rightarrow> Inr (Children children)
         | Some entry \<Rightarrow>
             if \<not> truthy num_text (Some entry) then Inr (Children children)
             else
               bind_err (member ''name'' entry) (\<lambda>name.
               bind_err (member ''status'' entry) (\<lambda>status.
               bind_err (member ''err_msg'' entry) (\<lambda>err_msg.
               bind_err (member ''result'' entry) (\<lambda>result.
               bind_err (property_key num_text status) (\<lambda>key.
                 let st = status_lookup key
                 in Inr (View
                      \<lparr>header_class =
                         classNames ''flex px-4 md:px-6 py-2 items-center text-white text-sm''
                           (bgClass st),
                       header_name = name,
                       header_icon = icon st,
                       body = (if truthy num_text result then Markdown result
                               else ErrMsg err_msg)\<rparr>)))))))"

subsection \<open>The panes of a robot answer\<close>

text \<open>
  \<^verbatim>\<open>getRobotContext\<close>: the parsed context, or empty panes once the failure is written
  to the console (the second component).
\<close>

definition getRobotContext ::
  "(string \<Rightarrow> 'n json option) \<Rightarrow> string \<Rightarrow> 'n json \<times> js_error list" where
  "getRobotContext parse ctxt =
     (case parse ctxt of
        Some robotContext \<Rightarrow> (robotContext, [])
      | None \<Rightarrow> (JObj [(''left'', JStr []), (''right'', JStr [])], [SyntaxError]))"

text \<open>\<^verbatim>\<open>const { left = '', right = '' } = robotContext\<close>\<close>

fun or_default :: "'n json option \<Rightarrow> string \<Rightarrow> 'n json" where
  "or_default None d = JStr d"
| "or_default (Some v) d = v"

definition left_right :: "'n json \<Rightarrow> js_error + 'n json \<times> 'n json" where
  "left_right robotContext =
     bind_err (member ''left'' robotContext) (\<lambda>l.
     bind_err (member ''right'' robotContext) (\<lambda>r.
       Inr (or_default l [], or_default r [])))"

text \<open>
  The string that \<^verbatim>\<open>JSON.parse\<close> reads when it is handed the context
  (\<^verbatim>\<open>context as string\<close> converts nothing).
\<close>

fun context_text :: "message_context \<Rightarrow> string" where
  "context_text (Text text) = text"
| "context_text (Template template_name template_introduce) = ''[object Object]''"

section \<open>Notions the properties are stated with\<close>

subsection \<open>Tabs\<close>

text \<open>
  Auto-follow: while the user is not driving, the active tab is the tab of the last
  record.
\<close>

definition follows_last :: "VisTabs \<Rightarrow> bool" where
  "follows_last s = (isUserActive s \<or> activeKey s = getLastActiveKey (data s))"

definition T123 :: "VisTabsData list" where
  "T123 = [tab ''T1'', tab ''T2'', tab ''T3'']"

subsection \<open>Embedded views\<close>

text \<open>The fragments that the pattern matched, and the text that was cut.\<close>

fun matches :: "seg list \<Rightarrow> string list" where
  "matches [] = []"
| "matches (Lit c # segs) = matches segs"
| "matches (Match m # segs) = m # matches segs"

fun source_text :: "seg list \<Rightarrow> string" where
  "source_text [] = []"
| "source_text (Lit c # segs) = c # source_text segs"
| "source_text (Match m # segs) = m @ source_text segs"

text \<open>
  A parsed payload that the replacer can cache: any value but \<^verbatim>\<open>null\<close> whose
  \<^verbatim>\<open>result\<close> is absent, \<^verbatim>\<open>null\<close> or a string. A fragment is well formed when its
  payload parses to such a value.
\<close>

fun null_or_string :: "'n json \<Rightarrow> bool" where
  "null_or_string JNull = True"
| "null_or_string (JStr s) = True"
| "null_or_string v = False"

definition cacheable :: "'n json \<Rightarrow> bool" where
  "cacheable j =
     (j \<noteq> JNull \<and>
      (case member ''result'' j of
         Inr (Some v) \<Rightarrow> null_or_string v
       | _ \<Rightarrow> True))"

definition well_formed :: "(string \<Rightarrow> 'n json option) \<Rightarrow> string \<Rightarrow> bool" where
  "well_formed parse m = (case parse (pluginVal m) of None \<Rightarrow> False | Some j \<Rightarrow> cacheable j)"

text \<open>
  The view cached for a parsed payload: its properties, with \<^verbatim>\<open>result\<close> set to the
  formatted text of the result it had (the empty string when it had none).
\<close>

definition result_or_empty :: "'n json \<Rightarrow> string" where
  "result_or_empty j = (case member ''result'' j of Inr (Some (JStr s)) \<Rightarrow> s | _ \<Rightarrow> [])"

definition view_entry :: "'n json \<Rightarrow> 'n json" where
  "view_entry j =
     JObj (AList.update ''result'' (JStr (formatMarkdownVal (result_or_empty j))) (spread j))"

definition view_of :: "(string \<Rightarrow> 'n json option) \<Rightarrow> string \<Rightarrow> 'n json option" where
  "view_of parse m =
     (case parse (pluginVal m) of
        None \<Rightarrow> None
      | Some j \<Rightarrow> if cacheable j then Some (view_entry j) else None)"

text \<open>
  The text and the cache that the specification describes for a text cut into
  fragments: every fragment that is \<open>ok\<close> becomes the placeholder that carries the
  number of such fragments before it (counted from \<open>i\<close>) and contributes its view,
  everything else stays as it is.
\<close>

fun expected_text :: "(string \<Rightarrow> bool) \<Rightarrow> nat \<Rightarrow> seg list \<Rightarrow> string" where
  "expected_text ok i [] = []"
| "expected_text ok i (Lit c # segs) = c # expected_text ok i segs"
| "expected_text ok i (Match m # segs) =
     (if ok m then placeholder i @ expected_text ok (Suc i) segs
      else m @ expected_text ok i segs)"

definition expected_cache :: "(string \<Rightarrow> 'n json option) \<Rightarrow> seg list \<Rightarrow> 'n json list" where
  "expected_cache parse segs = List.map_filter (view_of parse) (matches segs)"

text \<open>Every fragment replaced by a placeholder, numbered from \<open>i\<close> in order.\<close>

fun numbered :: "nat \<Rightarrow> seg list \<Rightarrow> string" where
  "numbered i [] = []"
| "numbered i (Lit c # segs) = c # numbered i segs"
| "numbered i (Match m # segs) = placeholder i @ numbered (Suc i) segs"

text \<open>The part of a context that the extractor scans: what stands before the marker.\<close>

definition value_part :: "string \<Rightarrow> string" where
  "value_part t = hd (split relations_marker t)"

text \<open>
  Some values of \<^verbatim>\<open>JSON.parse\<close>, for concrete runs: the empty object, \<^verbatim>\<open>null\<close>, and a
  view record whose result holds a backslash followed by \<^verbatim>\<open>n\<close> and a table tag with
  its attribute glued on (in the JSON text the backslash is doubled and the opening
  angle bracket is written as its escape of four hexadecimal digits, since the body of a
  matched fragment holds no such bracket). On any other text \<open>sample_parse\<close> fails, as \<^verbatim>\<open>JSON.parse\<close> does on the
  one other payload of these runs, \<^verbatim>\<open>oops\<close>.
\<close>

definition sample_record_text :: string where
  "sample_record_text =
     ''{\"name\":\"ls\",\"status\":\"completed\",\"result\":\"a'' @ [CHR 0x5C, CHR 0x5C]
       @ ''n'' @ [CHR 0x5C] @ ''u003ctableborder=1>\"}''"

definition sample_record :: "unit json" where
  "sample_record =
     JObj [(''name'', JStr ''ls''), (''status'', JStr ''completed''),
           (''result'', JStr (''a'' @ [CHR 0x5C] @ ''n<tableborder=1>''))]"

definition sample_parse :: "string \<Rightarrow> unit json option" where
  "sample_parse =
     map_of [(''{}'', JObj []), (''null'', JNull), (sample_record_text, sample_record)]"

text \<open>Texts and a start state for concrete runs.\<close>

definition tag_null :: string where
  "tag_null = ''<dbgpt-view>null</dbgpt-view>''"

definition tag_oops :: string where
  "tag_oops = ''<dbgpt-view>oops</dbgpt-view>''"

definition two_views :: string where
  "two_views = ''x<dbgpt-view>{}</dbgpt-view>y<DBGPT-VIEW id=7>'' @ sample_record_text
      @ ''</dbgpt-view>z'' @ relations_marker @ ''r1,r2''"

definition mixed_views :: string where
  "mixed_views = ''x<dbgpt-view>{}</dbgpt-view>'' @ tag_null @ ''y'' @ tag_oops
      @ ''<DBGPT-VIEW id=7>'' @ sample_record_text @ ''</dbgpt-view>z''
      @ relations_marker @ ''r1,r2''"

definition tag_after_marker :: string where
  "tag_after_marker = ''x'' @ relations_marker @ ''<dbgpt-view>{}</dbgpt-view>''"

definition one_malformed :: string where
  "one_malformed = ''a<dbgpt-view>{}</dbgpt-view>b'' @ tag_oops @ ''c<dbgpt-view>{}</dbgpt-view>''"

definition plain_text :: string where
  "plain_text = ''plain text''"

definition text_with_relations :: string where
  "text_with_relations = ''hello'' @ relations_marker @ ''a,b''"

definition sample_index :: "string \<Rightarrow> nat option" where
  "sample_index =
     map_of [(''0'', 0), (''1'', 1), (''2'', 2), (''3'', 3), (''4'', 4), (''7'', 7)]"

definition sample_view_tag :: string where
  "sample_view_tag = ''<dbgpt-view>'' @ sample_record_text @ ''</dbgpt-view>''"

definition pending_view :: "unit json" where
  "pending_view =
     JObj [(''name'', JStr ''ls''), (''status'', JStr ''pending''), (''err_msg'', JStr ''no'')]"

definition status_view :: "string \<Rightarrow> unit json" where
  "status_view st =
     JObj [(''name'', JStr ''ls''), (''status'', JStr st), (''err_msg'', JStr ''no'')]"

definition status_views :: "unit json list" where
  "status_views =
     map status_view [''pending'', ''todo'', ''runing'', ''failed'', ''completed'']"

definition unit_text :: "unit \<Rightarrow> string" where
  "unit_text u = ''1''"

definition st0 :: "unit memo" where
  "st0 = \<lparr>relations = [], valueText = [], cacheIndex = 0, cachePluginContext = [],
          console = []\<rparr>"

section \<open>Properties of the tabbed output view\<close>

lemma getLastActiveKey_Nil: "getLastActiveKey [] = []"
  by (simp add: getLastActiveKey_def)

lemma getLastActiveKey_snoc: "getLastActiveKey (d @ [r]) = task_id r"
  by (simp add: getLastActiveKey_def)

lemma getLastActiveKey_last: "d \<noteq> [] \<Longrightarrow> getLastActiveKey d = task_id (last d)"
  by (simp add: getLastActiveKey_def last_conv_nth)

lemma mount_simps:
  "data (mount d) = d" "activeKey (mount d) = getLastActiveKey d"
  "isUserActive (mount d) = False" "listener_data (mount d) = d"
  by (simp_all add: mount_def Let_def)

text \<open>
  C9. For the empty output sequence the last-active key, and with it the active key of
  the freshly mounted component, is the empty string; for a sequence with at least one
  record it is the task id of the last record.
\<close>

theorem C9_last_active_key:
  "getLastActiveKey [] = [] \<and> activeKey (mount []) = []
   \<and> getLastActiveKey (d @ [r]) = task_id r \<and> activeKey (mount (d @ [r])) = task_id r
   \<and> (d \<noteq> [] \<longrightarrow> getLastActiveKey d = task_id (last d) \<and> activeKey (mount d) = task_id (last d))"
  by (simp add: getLastActiveKey_Nil getLastActiveKey_snoc getLastActiveKey_last mount_simps)

theorem C9_last_active_key_witness:
  "[tab ''T1'', tab ''T2''] \<noteq> []
   \<and> getLastActiveKey [tab ''T1'', tab ''T2''] = ''T2''
   \<and> activeKey (mount [tab ''T1'', tab ''T2'']) = ''T2''"
  using C9_last_active_key [of "[tab ''T1'', tab ''T2'']"]
  by (simp add: tab_def)

lemma step_NewData_follow:
  "\<not> isUserActive s \<Longrightarrow> activeKey (step s (NewData d)) = getLastActiveKey d
     \<and> \<not> isUserActive (step s (NewData d)) \<and> data (step s (NewData d)) = d"
  by (simp add: Let_def)

lemma step_TabChange:
  "activeKey (step s (TabChange k)) = k"
  "isUserActive (step s (TabChange k)) = (k \<noteq> getLastActiveKey (data s))"
  "data (step s (TabChange k)) = data s"
  by (simp_all add: setTabActiveByUser_def Let_def)

lemma run_Nil: "run s [] = s"
  by (simp add: run_def)

lemma run_Cons: "run s (e # es) = run (step s e) es"
  by (simp add: run_def)

lemma follows_last_mount: "follows_last (mount d)"
  by (simp add: follows_last_def mount_simps)

lemma follows_last_step:
  "follows_last s \<Longrightarrow> tab_strip_event e \<Longrightarrow> follows_last (step s e)"
  by (cases e) (auto simp: follows_last_def setTabActiveByUser_def Let_def)

lemma follows_last_run:
  "follows_last s \<Longrightarrow> \<forall>e\<in>set es. tab_strip_event e \<Longrightarrow> follows_last (run s es)"
  by (induction es arbitrary: s) (simp_all add: run_Nil run_Cons follows_last_step)

lemma pinned_run:
  "isUserActive s \<Longrightarrow> \<forall>e\<in>set ds. data_event e \<Longrightarrow>
     activeKey (run s ds) = activeKey s \<and> isUserActive (run s ds)"
proof (induction ds arbitrary: s)
  case Nil
  then show ?case by (simp add: run_Nil)
next
  case (Cons e ds)
  from Cons.prems obtain d where e: "e = NewData d"
    by (cases e) auto
  have "isUserActive (step s e)" "activeKey (step s e) = activeKey s"
    using Cons.prems(1) by (simp_all add: e Let_def)
  with Cons.IH [of "step s e"] Cons.prems(2) show ?case
    by (simp add: run_Cons)
qed

text \<open>
  Auto-follow and pin on the tab strip. In every state that data arrivals and
  selections in the tab strip lead to from the mount: if the user-driving flag is
  clear, the active tab is the task id of the last record, and appending a record moves
  it to the task id of that record; after a selection of a tab other than the last, the
  flag is set and no sequence of data arrivals moves the active tab away from the
  selection; a selection of the last tab clears the flag, and the next appended record
  is followed again.
\<close>

lemma tab_strip_follow_and_pin:
  fixes d :: "VisTabsData list" and es ds :: "event list"
  defines "s \<equiv> run (mount d) es"
  defines "lastKey \<equiv> getLastActiveKey (data s)"
  assumes strip: "\<forall>e\<in>set es. tab_strip_event e"
    and arrivals: "\<forall>e\<in>set ds. data_event e"
  shows "(\<not> isUserActive s \<longrightarrow>
            activeKey s = lastKey \<and> activeKey (step s (NewData (data s @ [r]))) = task_id r)
       \<and> (k \<noteq> lastKey \<longrightarrow>
            isUserActive (step s (TabChange k)) \<and> activeKey (run (step s (TabChange k)) ds) = k)
       \<and> \<not> isUserActive (step s (TabChange lastKey))
       \<and> activeKey (step s (TabChange lastKey)) = lastKey
       \<and> activeKey (step (step s (TabChange lastKey)) (NewData (data s @ [r]))) = task_id r"
proof -
  have inv: "follows_last s"
    unfolding s_def using follows_last_mount strip by (rule follows_last_run)
  have a: "\<not> isUserActive s \<longrightarrow>
            activeKey s = lastKey \<and> activeKey (step s (NewData (data s @ [r]))) = task_id r"
    using inv step_NewData_follow [of s "data s @ [r]"]
    by (auto simp: follows_last_def lastKey_def getLastActiveKey_snoc)
  have b: "k \<noteq> lastKey \<longrightarrow>
            isUserActive (step s (TabChange k)) \<and> activeKey (run (step s (TabChange k)) ds) = k"
  proof
    assume "k \<noteq> lastKey"
    then have pin: "isUserActive (step s (TabChange k))"
      by (simp add: step_TabChange lastKey_def del: step.simps)
    from pinned_run [OF pin arrivals] have "activeKey (run (step s (TabChange k)) ds) = k"
      by (simp add: step_TabChange del: step.simps)
    with pin show "isUserActive (step s (TabChange k))
        \<and> activeKey (run (step s (TabChange k)) ds) = k"
      by simp
  qed
  have c: "\<not> isUserActive (step s (TabChange lastKey))"
    by (simp add: step_TabChange lastKey_def del: step.simps)
  have d: "activeKey (step s (TabChange lastKey)) = lastKey"
    by (simp add: step_TabChange del: step.simps)
  have e: "activeKey (step (step s (TabChange lastKey)) (NewData (data s @ [r]))) = task_id r"
    using c step_NewData_follow [of "step s (TabChange lastKey)" "data s @ [r]"]
    by (simp add: getLastActiveKey_snoc del: step.simps)
  from a b c d e show ?thesis by blast
qed

lemma T123_last: "getLastActiveKey T123 = ''T3''"
  by (simp add: T123_def tab_def getLastActiveKey_def)

lemma tab_strip_follow_and_pin_example:
  "tab_strip_event (TabChange ''T2'') \<and> tab_strip_event (TabChange ''T3'')
   \<and> data_event (NewData (T123 @ [tab ''T5'']))
   \<and> \<not> isUserActive (run (mount T123) [TabChange ''T2'', TabChange ''T3''])
   \<and> activeKey (run (mount T123) [TabChange ''T2'', TabChange ''T3'']) = ''T3''
   \<and> activeKey (step (run (mount T123) [TabChange ''T2'', TabChange ''T3''])
         (NewData (T123 @ [tab ''T4'']))) = ''T4''
   \<and> ''T1'' \<noteq> ''T3''
   \<and> isUserActive (step (run (mount T123) [TabChange ''T2'', TabChange ''T3'']) (TabChange ''T1''))
   \<and> activeKey (run (step (run (mount T123) [TabChange ''T2'', TabChange ''T3'']) (TabChange ''T1''))
         [NewData (T123 @ [tab ''T5'']), NewData (T123 @ [tab ''T5'', tab ''T6''])]) = ''T1''
   \<and> \<not> isUserActive (step (run (mount T123) [TabChange ''T2'', TabChange ''T3'']) (TabChange ''T3''))
   \<and> activeKey (step (step (run (mount T123) [TabChange ''T2'', TabChange ''T3'']) (TabChange ''T3''))
         (NewData (T123 @ [tab ''T4'']))) = ''T4''"
proof -
  let ?es = "[TabChange ''T2'', TabChange ''T3'']"
  let ?ds = "[NewData (T123 @ [tab ''T5'']), NewData (T123 @ [tab ''T5'', tab ''T6''])]"
  have h1: "\<forall>e\<in>set ?es. tab_strip_event e" by simp
  have h2: "\<forall>e\<in>set ?ds. data_event e" by simp
  have s: "run (mount T123) ?es
             = \<lparr>data = T123, activeKey = ''T3'', isUserActive = False, listener_data = T123\<rparr>"
    by (simp add: run_def mount_def Let_def setTabActiveByUser_def T123_last)
  have t: "task_id (tab ''T4'') = ''T4''" by (simp add: tab_def)
  from tab_strip_follow_and_pin [OF h1 h2, of T123 "tab ''T4''" "''T1''"]
  show ?thesis
    unfolding s by (simp add: T123_last t)
qed

text \<open>
  An emitted click and a selection in the tab strip make the same transition exactly
  when the key is the last key of both the data of the first render and the current
  data, or of neither.
\<close>

lemma external_click_agrees_iff:
  "step s (TaskClick k) = step s (TabChange k)
     \<longleftrightarrow> (k = getLastActiveKey (listener_data s)) = (k = getLastActiveKey (data s))"
proof -
  have "isUserActive (step s (TaskClick k)) = (k \<noteq> getLastActiveKey (listener_data s))"
    by (simp add: setTabActiveByUser_def Let_def)
  moreover have "isUserActive (step s (TabChange k)) = (k \<noteq> getLastActiveKey (data s))"
    by (simp add: setTabActiveByUser_def Let_def)
  moreover have "(k = getLastActiveKey (listener_data s)) = (k = getLastActiveKey (data s))
      \<Longrightarrow> step s (TaskClick k) = step s (TabChange k)"
    by (simp add: setTabActiveByUser_def Let_def)
  ultimately show ?thesis by metis
qed

text \<open>
  C3. The component is mounted with the one record \<^verbatim>\<open>T1\<close>, the record \<^verbatim>\<open>T2\<close>
  arrives, and a \<^verbatim>\<open>TASK_CLICK\<close> selects \<^verbatim>\<open>T1\<close>, which is not the last tab. The
  user-driving flag is then clear while the active tab is not the tab of the last
  record, and the next record that arrives moves the active tab away from the
  selection.
\<close>

theorem C3_flag_clear_off_last_tab:
  "\<not> isUserActive
        (run (mount [tab ''T1'']) [NewData [tab ''T1'', tab ''T2''], TaskClick ''T1''])
   \<and> activeKey
        (run (mount [tab ''T1'']) [NewData [tab ''T1'', tab ''T2''], TaskClick ''T1'']) = ''T1''
   \<and> getLastActiveKey (data
        (run (mount [tab ''T1'']) [NewData [tab ''T1'', tab ''T2''], TaskClick ''T1''])) = ''T2''
   \<and> activeKey
        (run (mount [tab ''T1''])
           [NewData [tab ''T1'', tab ''T2''], TaskClick ''T1'',
            NewData [tab ''T1'', tab ''T2'', tab ''T3'']]) = ''T3''"
  by (simp add: run_def mount_def tab_def getLastActiveKey_def setTabActiveByUser_def Let_def)

text \<open>
  C4. The component is mounted with the one record \<^verbatim>\<open>T1\<close>, then the record \<^verbatim>\<open>T2\<close>
  arrives. A \<^verbatim>\<open>TASK_CLICK\<close> for \<^verbatim>\<open>T1\<close> now leaves the user-driving flag clear, because
  its listener compares with the last key of the data of the first render; the same
  selection in the tab strip sets the flag.
\<close>

theorem C4_external_click_stale_closure:
  "step (run (mount [tab ''T1'']) [NewData [tab ''T1'', tab ''T2'']]) (TaskClick ''T1'')
     = \<lparr>data = [tab ''T1'', tab ''T2''], activeKey = ''T1'', isUserActive = False,
        listener_data = [tab ''T1'']\<rparr>
   \<and> step (run (mount [tab ''T1'']) [NewData [tab ''T1'', tab ''T2'']]) (TabChange ''T1'')
     = \<lparr>data = [tab ''T1'', tab ''T2''], activeKey = ''T1'', isUserActive = True,
        listener_data = [tab ''T1'']\<rparr>"
  by (simp add: run_def mount_def tab_def getLastActiveKey_def setTabActiveByUser_def Let_def)

section \<open>Properties of the extractor\<close>

lemma source_text_scan: "source_text (regex_scan re s) = s"
  by (induction re s rule: regex_scan.induct) (auto split: option.splits)

lemma nullish_or_Some: "nullish_or (Some v) d = (if v = JNull then JStr d else v)"
  by (cases v) simp_all

lemma cache_entry_cacheable:
  "cacheable j \<Longrightarrow> cache_entry j = Inr (view_entry j)"
  by (cases j) (auto simp: cacheable_def cache_entry_def view_entry_def result_or_empty_def
      nullish_or_Some split: option.splits json.splits)

lemma cache_entry_not_cacheable:
  "\<not> cacheable j \<Longrightarrow> cache_entry j = Inl TypeError"
  by (cases j) (auto simp: cacheable_def cache_entry_def nullish_or_Some
      split: option.splits json.splits)

lemma replacer_well_formed:
  "well_formed parse m \<Longrightarrow>
     replacer parse m st =
       (placeholder (cacheIndex st),
        st\<lparr>cachePluginContext := cachePluginContext st @ [the (view_of parse m)],
           cacheIndex := cacheIndex st + 1\<rparr>)"
  by (auto simp: well_formed_def view_of_def replacer_def try_replace_def cache_entry_cacheable
      Let_def split: option.splits)

lemma replacer_malformed:
  "\<not> well_formed parse m \<Longrightarrow>
     replacer parse m st =
       (m, st\<lparr>console := console st @
             [case parse (pluginVal m) of None \<Rightarrow> SyntaxError | Some j \<Rightarrow> TypeError]\<rparr>)"
  by (auto simp: well_formed_def replacer_def try_replace_def cache_entry_not_cacheable Let_def
      split: option.splits)

lemma view_of_well_formed: "well_formed parse m \<Longrightarrow> view_of parse m \<noteq> None"
  by (auto simp: well_formed_def view_of_def split: option.splits)

lemma view_of_malformed: "\<not> well_formed parse m \<Longrightarrow> view_of parse m = None"
  by (auto simp: well_formed_def view_of_def split: option.splits)

lemma expected_cache_simps:
  "expected_cache parse [] = []"
  "expected_cache parse (Lit c # segs) = expected_cache parse segs"
  "well_formed parse m \<Longrightarrow>
     expected_cache parse (Match m # segs) = the (view_of parse m) # expected_cache parse segs"
  "\<not> well_formed parse m \<Longrightarrow>
     expected_cache parse (Match m # segs) = expected_cache parse segs"
  using view_of_well_formed [of parse m] view_of_malformed [of parse m]
  by (auto simp: expected_cache_def)

lemma replace_segs_text:
  "fst (replace_segs (replacer parse) segs st) = expected_text (well_formed parse) (cacheIndex st) segs"
proof (induction segs arbitrary: st)
  case Nil
  then show ?case by simp
next
  case (Cons x segs)
  show ?case
  proof (cases x)
    case (Lit c)
    then show ?thesis using Cons.IH [of st] by (simp add: case_prod_beta)
  next
    case (Match m)
    show ?thesis
    proof (cases "well_formed parse m")
      case True
      then show ?thesis
        using Cons.IH by (simp add: Match replacer_well_formed case_prod_beta)
    next
      case False
      then show ?thesis
        using Cons.IH by (simp add: Match replacer_malformed case_prod_beta)
    qed
  qed
qed

lemma replace_segs_cache:
  "cachePluginContext (snd (replace_segs (replacer parse) segs st))
     = cachePluginContext st @ expected_cache parse segs
   \<and> cacheIndex (snd (replace_segs (replacer parse) segs st))
     = cacheIndex st + length (expected_cache parse segs)
   \<and> relations (snd (replace_segs (replacer parse) segs st)) = relations st"
proof (induction segs arbitrary: st)
  case Nil
  then show ?case by (simp add: expected_cache_simps)
next
  case (Cons x segs)
  show ?case
  proof (cases x)
    case (Lit c)
    then show ?thesis using Cons.IH [of st] by (simp add: case_prod_beta expected_cache_simps)
  next
    case (Match m)
    show ?thesis
    proof (cases "well_formed parse m")
      case True
      then show ?thesis
        using Cons.IH by (simp add: Match replacer_well_formed case_prod_beta expected_cache_simps)
    next
      case False
      then show ?thesis
        using Cons.IH by (simp add: Match replacer_malformed case_prod_beta expected_cache_simps)
    qed
  qed
qed

lemma expected_text_append:
  "expected_text ok i (pre @ post)
     = expected_text ok i pre @ expected_text ok (i + length (filter ok (matches pre))) post"
  by (induction ok i pre rule: expected_text.induct) auto

lemma matches_append: "matches (pre @ post) = matches pre @ matches post"
  by (induction pre rule: matches.induct) auto

lemma expected_cache_append:
  "expected_cache parse (pre @ post) = expected_cache parse pre @ expected_cache parse post"
  by (simp add: expected_cache_def matches_append List.map_filter_def)

lemma expected_text_all:
  "\<forall>m\<in>set (matches segs). ok m \<Longrightarrow> expected_text ok i segs = numbered i segs"
  by (induction i segs rule: numbered.induct) auto

lemma split_from_not_Nil: "split_from sep cur s \<noteq> []"
  by (induction sep cur s rule: split_from.induct) auto

lemma hd_split_from_prefix:
  "sep \<noteq> [] \<Longrightarrow> \<exists>rest. cur @ s = hd (split_from sep cur s) @ rest
      \<and> (rest = [] \<or> take (length sep) rest = sep)"
proof (induction sep cur s rule: split_from.induct)
  case (1 sep cur)
  then show ?case by simp
next
  case (2 sep cur c cs)
  show ?case
  proof (cases "take (length sep) (c # cs) = sep")
    case True
    with "2.prems" show ?thesis by auto
  next
    case False
    with "2.IH"(2) "2.prems" show ?thesis by auto
  qed
qed

lemma hd_split_from_none:
  "sep \<noteq> [] \<Longrightarrow> \<forall>i<length s. take (length sep) (drop i s) \<noteq> sep \<Longrightarrow>
     split_from sep cur s = [cur @ s]"
proof (induction sep cur s rule: split_from.induct)
  case (1 sep cur)
  then show ?case by simp
next
  case (2 sep cur c cs)
  from "2.prems"(2) have h0: "take (length sep) (c # cs) \<noteq> sep"
    by (metis drop0 length_greater_0_conv list.distinct(1))
  have "\<forall>i<length cs. take (length sep) (drop i cs) \<noteq> sep"
  proof (intro allI impI)
    fix i assume "i < length cs"
    then have "Suc i < length (c # cs)" by simp
    with "2.prems"(2) have "take (length sep) (drop (Suc i) (c # cs)) \<noteq> sep" by blast
    then show "take (length sep) (drop i cs) \<noteq> sep" by simp
  qed
  with "2.IH"(2) [OF _ "2.prems"(1)] h0 have "split_from sep (cur @ [c]) cs = [(cur @ [c]) @ cs]"
    by blast
  with h0 show ?case by simp
qed

lemma value_part_prefix:
  "\<exists>rest. text = value_part text @ rest
      \<and> (rest = [] \<or> take (length relations_marker) rest = relations_marker)"
  using hd_split_from_prefix [of relations_marker "[]" "text"]
  by (simp add: value_part_def split_def relations_marker_def)

lemma value_part_no_marker:
  "\<forall>i<length text. take (length relations_marker) (drop i text) \<noteq> relations_marker \<Longrightarrow>
     value_part text = text"
  using hd_split_from_none [of relations_marker "text" "[]"]
  by (simp add: value_part_def split_def relations_marker_def)

lemma regex_scan_no_match:
  "\<forall>i<length s. re (drop i s) = None \<Longrightarrow> regex_scan re s = map Lit s"
proof (induction re s rule: regex_scan.induct)
  case (1 re)
  then show ?case by simp
next
  case (2 re c cs)
  from "2.prems" have h0: "re (c # cs) = None"
    by (metis drop0 length_greater_0_conv list.distinct(1))
  have "\<forall>i<length cs. re (drop i cs) = None"
  proof (intro allI impI)
    fix i assume "i < length cs"
    then have "Suc i < length (c # cs)" by simp
    with "2.prems" have "re (drop (Suc i) (c # cs)) = None" by blast
    then show "re (drop i cs) = None" by simp
  qed
  with "2.IH"(1) [OF h0] h0 show ?case by simp
qed

lemma matches_map_Lit: "matches (map Lit s) = []"
  by (induction s) auto

lemma expected_text_Lit: "expected_text ok i (map Lit s) = s"
  by (induction s) auto

lemma extract_views_Text:
  "valueText (extract_views parse (Text text))
     = expected_text (well_formed parse) 0 (regex_scan view_tag_at (value_part text))"
  "cachePluginContext (extract_views parse (Text text))
     = expected_cache parse (regex_scan view_tag_at (value_part text))"
  "cacheIndex (extract_views parse (Text text))
     = length (expected_cache parse (regex_scan view_tag_at (value_part text)))"
  using replace_segs_text [of parse "regex_scan view_tag_at (value_part text)"]
        replace_segs_cache [of parse "regex_scan view_tag_at (value_part text)"]
  by (simp_all add: extract_views_def replace_with_def value_part_def Let_def case_prod_beta)

lemma starts_with_ci_append: "starts_with_ci p x \<Longrightarrow> starts_with_ci p (x @ y)"
  by (simp add: starts_with_ci_def)

lemma takeWhile_append_stop:
  "drop (length (takeWhile P a)) a \<noteq> [] \<Longrightarrow> takeWhile P (a @ y) = takeWhile P a"
proof -
  assume "drop (length (takeWhile P a)) a \<noteq> []"
  then have "dropWhile P a \<noteq> []" by (simp add: dropWhile_eq_drop)
  then obtain x where "x \<in> set a" "\<not> P x" by (auto simp: dropWhile_eq_Nil_conv)
  then show ?thesis by (rule takeWhile_append1)
qed

lemma starts_with_ci_not_Nil: "starts_with_ci p s \<Longrightarrow> p \<noteq> [] \<Longrightarrow> s \<noteq> []"
  by (auto simp: starts_with_ci_def)

lemma drop_takeWhile_append:
  "drop (length (takeWhile P a)) (a @ y) = drop (length (takeWhile P a)) a @ y"
  using length_takeWhile_le [of P a] by simp

lemma view_tag_at_append: 
  assumes "view_tag_at x = Some n" shows "view_tag_at (x @ y) = Some n"
proof -
  let ?P = "\<lambda>c. c \<noteq> CHR ''>''" and ?Q = "\<lambda>c. c \<noteq> CHR ''<''"
  let ?s1 = "drop (length ''<dbgpt-view'') x"
  let ?attrs = "takeWhile ?P ?s1"
  let ?s2 = "drop (length ?attrs) ?s1"
  let ?s3 = "tl ?s2"
  let ?body = "takeWhile ?Q ?s3"
  let ?s4 = "drop (length ?body) ?s3"
  from assms have a: "starts_with_ci ''<dbgpt-view'' x"
    by (auto simp: view_tag_at_def split: if_splits)
  from assms a have b: "?s2 \<noteq> []"
    by (auto simp: view_tag_at_def Let_def split: if_splits)
  from assms a b have c: "starts_with_ci ''</dbgpt-view>'' ?s4"
    by (auto simp: view_tag_at_def Let_def split: if_splits)
  from assms a b c have n: "n = length ''<dbgpt-view'' + length ?attrs + 1 + length ?body
                           + length ''</dbgpt-view>''"
    by (auto simp: view_tag_at_def Let_def split: if_splits)
  from a have len: "length ''<dbgpt-view'' \<le> length x" by (simp add: starts_with_ci_def)
  have s1: "drop (length ''<dbgpt-view'') (x @ y) = ?s1 @ y" using len by simp
  have attrs: "takeWhile ?P (?s1 @ y) = ?attrs" using b by (rule takeWhile_append_stop)
  have s2: "drop (length ?attrs) (?s1 @ y) = ?s2 @ y"
    by (rule drop_takeWhile_append)
  have s3: "tl (?s2 @ y) = ?s3 @ y" using b by simp
  have d: "?s4 \<noteq> []" using c by (rule starts_with_ci_not_Nil) simp
  have body: "takeWhile ?Q (?s3 @ y) = ?body" using d by (rule takeWhile_append_stop)
  have s4: "drop (length ?body) (?s3 @ y) = ?s4 @ y"
    by (rule drop_takeWhile_append)
  have a': "starts_with_ci ''<dbgpt-view'' (x @ y)" using a by (rule starts_with_ci_append)
  have c': "starts_with_ci ''</dbgpt-view>'' (?s4 @ y)" using c by (rule starts_with_ci_append)
  have b': "?s2 @ y \<noteq> []" using b by simp
  have "view_tag_at (x @ y) =
      (if \<not> starts_with_ci ''<dbgpt-view'' (x @ y) then None
       else if ?s2 @ y = [] then None
       else if starts_with_ci ''</dbgpt-view>'' (?s4 @ y)
            then Some (length ''<dbgpt-view'' + length ?attrs + 1 + length ?body
                           + length ''</dbgpt-view>'')
            else None)"
    unfolding view_tag_at_def [of "x @ y"] Let_def s1 attrs s2 s3 body s4 ..
  also have "\<dots> = Some n"
    using a' b' c' n by (simp only: if_True if_False not_True_eq_False simp_thms)
  finally show ?thesis .
qed

lemma source_text_append: "source_text (pre @ post) = source_text pre @ source_text post"
  by (induction pre rule: source_text.induct) auto

lemma length_expected_cache:
  "length (expected_cache parse segs) = length (filter (well_formed parse) (matches segs))"
proof (induction segs rule: matches.induct)
  case 1
  then show ?case by (simp add: expected_cache_simps)
next
  case (2 c segs)
  then show ?case by (simp add: expected_cache_simps)
next
  case (3 m segs)
  then show ?case
    by (cases "well_formed parse m") (simp_all add: expected_cache_simps)
qed

lemma no_tag_in_prefix:
  assumes "\<forall>i<length (v @ rest). view_tag_at (drop i (v @ rest)) = None"
  shows "\<forall>i<length v. view_tag_at (drop i v) = None"
proof (intro allI impI)
  fix i assume i: "i < length v"
  show "view_tag_at (drop i v) = None"
  proof (rule ccontr)
    assume "view_tag_at (drop i v) \<noteq> None"
    then obtain n where "view_tag_at (drop i v) = Some n" by blast
    then have "view_tag_at (drop i v @ rest) = Some n"
      by (rule view_tag_at_append)
    moreover have "drop i (v @ rest) = drop i v @ rest"
      using i by simp
    moreover have "i < length (v @ rest)" using i by simp
    moreover from this assms have "view_tag_at (drop i (v @ rest)) = None" by blast
    ultimately show False by simp
  qed
qed

lemma no_tag_in_value_part:
  assumes "\<forall>i<length t. view_tag_at (drop i t) = None"
  shows "\<forall>i<length (value_part t). view_tag_at (drop i (value_part t)) = None"
proof -
  from value_part_prefix [of t] obtain rest where "t = value_part t @ rest" by blast
  with assms have "\<forall>i<length (value_part t @ rest).
      view_tag_at (drop i (value_part t @ rest)) = None"
    by metis
  then show ?thesis by (rule no_tag_in_prefix)
qed

lemma no_tag_by_list:
  "list_all (\<lambda>i. re (drop i t) = None) [0..<length t] \<Longrightarrow> \<forall>i<length t. re (drop i t) = None"
  by (simp add: list_all_iff)

lemma no_marker_by_list:
  "list_all (\<lambda>i. take (length relations_marker) (drop i t) \<noteq> relations_marker) [0..<length t]
   \<Longrightarrow> \<forall>i<length t. take (length relations_marker) (drop i t) \<noteq> relations_marker"
  by (simp add: list_all_iff)

lemma expected_cache_views:
  "map Some (expected_cache parse segs)
     = map (view_of parse) (filter (well_formed parse) (matches segs))"
proof (induction segs rule: matches.induct)
  case 1
  then show ?case by (simp add: expected_cache_simps)
next
  case (2 c segs)
  then show ?case by (simp add: expected_cache_simps)
next
  case (3 m segs)
  show ?case
  proof (cases "well_formed parse m")
    case True
    with 3 view_of_well_formed [of parse m] show ?thesis
      by (auto simp: expected_cache_simps)
  next
    case False
    with 3 show ?thesis by (simp add: expected_cache_simps)
  qed
qed

text \<open>
  C1 (as amended). Let the scanned text be the part of the input before the marker of
  the relations, cut into the fragments that match the embedded-view pattern, and call
  a fragment well formed when its payload parses to a value other than \<^verbatim>\<open>null\<close>
  whose \<^verbatim>\<open>result\<close> is absent, \<^verbatim>\<open>null\<close> or a string. For every input text with N
  well-formed fragments in its scanned text, whatever other fragments stand among
  them, the extractor returns the scanned text with the well-formed fragments replaced,
  from left to right, by the placeholders numbered 0 to N - 1 and everything else as
  it was, and the cache holds the N views of the well-formed fragments in the same
  order. When every fragment is well formed, every fragment is replaced.
\<close>

theorem C1_placeholders_in_order:
  fixes parse :: "string \<Rightarrow> 'n json option"
  defines "segs \<equiv> \<lambda>t. regex_scan view_tag_at (value_part t)"
  shows "valueText (extract_views parse (Text t))
           = expected_text (well_formed parse) 0 (segs t)
       \<and> cachePluginContext (extract_views parse (Text t)) = expected_cache parse (segs t)
       \<and> map Some (cachePluginContext (extract_views parse (Text t)))
           = map (view_of parse) (filter (well_formed parse) (matches (segs t)))
       \<and> length (cachePluginContext (extract_views parse (Text t)))
           = length (filter (well_formed parse) (matches (segs t)))
       \<and> source_text (segs t) = value_part t
       \<and> ((\<forall>m\<in>set (matches (segs t)). well_formed parse m) \<longrightarrow>
            valueText (extract_views parse (Text t)) = numbered 0 (segs t)
            \<and> length (cachePluginContext (extract_views parse (Text t)))
                = length (matches (segs t)))"
proof -
  have a: "valueText (extract_views parse (Text t))
           = expected_text (well_formed parse) 0 (segs t)"
    by (simp add: extract_views_Text segs_def)
  have b: "cachePluginContext (extract_views parse (Text t)) = expected_cache parse (segs t)"
    by (simp add: extract_views_Text segs_def)
  have c: "map Some (cachePluginContext (extract_views parse (Text t)))
           = map (view_of parse) (filter (well_formed parse) (matches (segs t)))"
    by (simp only: b expected_cache_views)
  have d: "length (cachePluginContext (extract_views parse (Text t)))
           = length (filter (well_formed parse) (matches (segs t)))"
    by (simp only: b length_expected_cache)
  have e: "source_text (segs t) = value_part t"
    by (simp add: segs_def source_text_scan)
  have f: "(\<forall>m\<in>set (matches (segs t)). well_formed parse m) \<longrightarrow>
            valueText (extract_views parse (Text t)) = numbered 0 (segs t)
            \<and> length (cachePluginContext (extract_views parse (Text t)))
                = length (matches (segs t))"
  proof
    assume all: "\<forall>m\<in>set (matches (segs t)). well_formed parse m"
    then have "filter (well_formed parse) (matches (segs t)) = matches (segs t)"
      by simp
    with a d expected_text_all [OF all, of 0]
    show "valueText (extract_views parse (Text t)) = numbered 0 (segs t)
            \<and> length (cachePluginContext (extract_views parse (Text t)))
                = length (matches (segs t))"
      by simp
  qed
  from a b c d e f show ?thesis by blast
qed

theorem C1_placeholders_in_order_witness:
  "valueText (extract_views sample_parse (Text mixed_views))
     = ''x<custom-view>0</custom-view><dbgpt-view>null</dbgpt-view>y<dbgpt-view>oops</dbgpt-view><custom-view>1</custom-view>z''
   \<and> cachePluginContext (extract_views sample_parse (Text mixed_views))
     = [JObj [(''result'', JStr [])],
        JObj [(''name'', JStr ''ls''), (''status'', JStr ''completed''),
              (''result'', JStr (''a'' @ [CHR 0x0A] @ ''<table border=1>''))]]
   \<and> valueText (extract_views sample_parse (Text two_views))
     = ''x<custom-view>0</custom-view>y<custom-view>1</custom-view>z''
   \<and> length (cachePluginContext (extract_views sample_parse (Text two_views))) = 2"
proof -
  have t: "expected_text (well_formed sample_parse) 0
             (regex_scan view_tag_at (value_part mixed_views))
      = ''x<custom-view>0</custom-view><dbgpt-view>null</dbgpt-view>y<dbgpt-view>oops</dbgpt-view><custom-view>1</custom-view>z''"
    by code_simp
  have v: "expected_cache sample_parse (regex_scan view_tag_at (value_part mixed_views))
      = [JObj [(''result'', JStr [])],
        JObj [(''name'', JStr ''ls''), (''status'', JStr ''completed''),
              (''result'', JStr (''a'' @ [CHR 0x0A] @ ''<table border=1>''))]]"
    by code_simp
  have h: "\<forall>m\<in>set (matches (regex_scan view_tag_at (value_part two_views))).
             well_formed sample_parse m"
    by code_simp
  have n: "numbered 0 (regex_scan view_tag_at (value_part two_views))
      = ''x<custom-view>0</custom-view>y<custom-view>1</custom-view>z''"
    by code_simp
  have l: "length (matches (regex_scan view_tag_at (value_part two_views))) = 2"
    by code_simp
  note mixed = C1_placeholders_in_order [where parse = sample_parse and t = mixed_views]
  note two = C1_placeholders_in_order [where parse = sample_parse and t = two_views]
  from mixed have m1: "valueText (extract_views sample_parse (Text mixed_views))
      = expected_text (well_formed sample_parse) 0
          (regex_scan view_tag_at (value_part mixed_views))"
    by (rule conjunct1)
  from mixed have m2: "cachePluginContext (extract_views sample_parse (Text mixed_views))
      = expected_cache sample_parse (regex_scan view_tag_at (value_part mixed_views))"
    by blast
  from two h have t1: "valueText (extract_views sample_parse (Text two_views))
      = numbered 0 (regex_scan view_tag_at (value_part two_views))"
    by blast
  from two h have t2: "length (cachePluginContext (extract_views sample_parse (Text two_views)))
      = length (matches (regex_scan view_tag_at (value_part two_views)))"
    by blast
  from m1 m2 t1 t2 show ?thesis
    by (simp only: t v n l simp_thms)
qed

text \<open>
  C1 as stated counts every fragment of the input whose payload parses. The payload
  \<^verbatim>\<open>null\<close> parses, and reading its \<^verbatim>\<open>result\<close> throws inside the \<^verbatim>\<open>try\<close> block: the
  fragment stays and nothing is cached. A well-formed fragment that stands after the
  marker of the relations is not scanned at all: it is neither replaced nor cached.
\<close>

theorem C1_null_payload_counterexample:
  "matches (regex_scan view_tag_at tag_null) = [tag_null]
   \<and> sample_parse (pluginVal tag_null) = Some JNull
   \<and> valueText (extract_views sample_parse (Text tag_null)) = tag_null
   \<and> cachePluginContext (extract_views sample_parse (Text tag_null)) = []
   \<and> matches (regex_scan view_tag_at tag_after_marker) = [''<dbgpt-view>{}</dbgpt-view>'']
   \<and> well_formed sample_parse ''<dbgpt-view>{}</dbgpt-view>''
   \<and> valueText (extract_views sample_parse (Text tag_after_marker)) = ''x''
   \<and> cachePluginContext (extract_views sample_parse (Text tag_after_marker)) = []"
  by code_simp

text \<open>
  C2. Let the replace run on a text, from any values of the index and the cache, and
  let one of the fragments it matches have a payload that fails to parse. The replacer
  returns that fragment itself and changes neither the index nor the cache (it only
  logs the error, which it caught). The fragment stands in the output where it stood
  in the input, between the output for what precedes it and the output for what
  follows it; in both, every well-formed fragment is replaced by the placeholder of
  the running index and cached, and the index after the failed fragment continues
  where it was before it.
\<close>

theorem C2_malformed_tag_left_in_place:
  fixes parse :: "string \<Rightarrow> 'n json option" and st :: "'n memo"
  assumes scan: "regex_scan view_tag_at t = pre @ Match m # post"
    and fail: "parse (pluginVal m) = None"
  shows "replacer parse m st = (m, st\<lparr>console := console st @ [SyntaxError]\<rparr>)
       \<and> t = source_text pre @ m @ source_text post
       \<and> fst (replace_with view_tag_at (replacer parse) t st)
           = expected_text (well_formed parse) (cacheIndex st) pre @ m
             @ expected_text (well_formed parse)
                 (cacheIndex st + length (expected_cache parse pre)) post
       \<and> cachePluginContext (snd (replace_with view_tag_at (replacer parse) t st))
           = cachePluginContext st @ expected_cache parse pre @ expected_cache parse post
       \<and> cacheIndex (snd (replace_with view_tag_at (replacer parse) t st))
           = cacheIndex st + length (expected_cache parse pre) + length (expected_cache parse post)"
proof -
  from fail have bad: "\<not> well_formed parse m"
    by (simp add: well_formed_def)
  have a: "replacer parse m st = (m, st\<lparr>console := console st @ [SyntaxError]\<rparr>)"
    using replacer_malformed [OF bad, of st] fail by simp
  have "source_text (regex_scan view_tag_at t) = t"
    by (rule source_text_scan)
  then have b: "t = source_text pre @ m @ source_text post"
    by (simp add: scan source_text_append)
  have c: "fst (replace_with view_tag_at (replacer parse) t st)
           = expected_text (well_formed parse) (cacheIndex st) pre @ m
             @ expected_text (well_formed parse)
                 (cacheIndex st + length (expected_cache parse pre)) post"
    using bad
    by (simp add: replace_with_def replace_segs_text scan expected_text_append
        length_expected_cache)
  have cache: "expected_cache parse (pre @ Match m # post)
      = expected_cache parse pre @ expected_cache parse post"
    using bad by (simp add: expected_cache_append expected_cache_simps)
  have d: "cachePluginContext (snd (replace_with view_tag_at (replacer parse) t st))
           = cachePluginContext st @ expected_cache parse pre @ expected_cache parse post"
    by (simp add: replace_with_def replace_segs_cache scan cache)
  have e: "cacheIndex (snd (replace_with view_tag_at (replacer parse) t st))
           = cacheIndex st + length (expected_cache parse pre) + length (expected_cache parse post)"
    by (simp add: replace_with_def replace_segs_cache scan cache)
  from a b c d e show ?thesis by blast
qed

theorem C2_malformed_tag_left_in_place_witness:
  "sample_parse (pluginVal tag_oops) = None
   \<and> replacer sample_parse tag_oops st0 = (tag_oops, st0\<lparr>console := [SyntaxError]\<rparr>)
   \<and> fst (replace_with view_tag_at (replacer sample_parse) one_malformed st0)
       = ''a<custom-view>0</custom-view>b<dbgpt-view>oops</dbgpt-view>c<custom-view>1</custom-view>''
   \<and> cachePluginContext (snd (replace_with view_tag_at (replacer sample_parse) one_malformed st0))
       = [JObj [(''result'', JStr [])], JObj [(''result'', JStr [])]]
   \<and> cacheIndex (snd (replace_with view_tag_at (replacer sample_parse) one_malformed st0)) = 2"
proof -
  let ?pre = "[Lit CHR ''a'', Match ''<dbgpt-view>{}</dbgpt-view>'', Lit CHR ''b'']"
  let ?post = "[Lit CHR ''c'', Match ''<dbgpt-view>{}</dbgpt-view>'']"
  have scan: "regex_scan view_tag_at one_malformed = ?pre @ Match tag_oops # ?post"
    by code_simp
  have fail: "sample_parse (pluginVal tag_oops) = None"
    by code_simp
  have e1: "expected_text (well_formed sample_parse) 0 ?pre = ''a<custom-view>0</custom-view>b''"
    by code_simp
  have e2: "expected_cache sample_parse ?pre = [JObj [(''result'', JStr [])]]"
    by code_simp
  have e3: "expected_text (well_formed sample_parse) (Suc 0) ?post
      = ''c<custom-view>1</custom-view>''"
    by code_simp
  have e4: "expected_cache sample_parse ?post = [JObj [(''result'', JStr [])]]"
    by code_simp
  have t: "tag_oops = ''<dbgpt-view>oops</dbgpt-view>''"
    by (simp add: tag_oops_def)
  have s: "cacheIndex st0 = 0" "cachePluginContext st0 = []" "console st0 = []"
    by (simp_all add: st0_def)
  from C2_malformed_tag_left_in_place
         [where t = one_malformed and pre = "?pre" and m = tag_oops and post = "?post"
            and parse = sample_parse and st = st0, OF scan fail] fail
  show ?thesis
    by (simp add: e1 e2 e3 e4 s t [symmetric] del: expected_text.simps)
qed

text \<open>
  C7 (as amended). For a text in which no embedded-view tag starts at any position,
  the extractor returns the part of the text before the first marker of the relations,
  unchanged (the rest of the text is empty or starts with the marker), and an empty
  cache; a text without the marker is returned whole.
\<close>

theorem C7_text_without_tags:
  assumes "\<forall>i<length t. view_tag_at (drop i t) = None"
  shows "valueText (extract_views parse (Text t)) = value_part t
       \<and> cachePluginContext (extract_views parse (Text t)) = []
       \<and> (\<exists>rest. t = value_part t @ rest
             \<and> (rest = [] \<or> take (length relations_marker) rest = relations_marker))
       \<and> ((\<forall>i<length t. take (length relations_marker) (drop i t) \<noteq> relations_marker)
             \<longrightarrow> valueText (extract_views parse (Text t)) = t)"
proof -
  from assms have "\<forall>i<length (value_part t). view_tag_at (drop i (value_part t)) = None"
    by (rule no_tag_in_value_part)
  then have scan: "regex_scan view_tag_at (value_part t) = map Lit (value_part t)"
    by (rule regex_scan_no_match)
  have a: "valueText (extract_views parse (Text t)) = value_part t"
    by (simp add: extract_views_Text scan expected_text_Lit)
  have b: "cachePluginContext (extract_views parse (Text t)) = []"
    by (simp add: extract_views_Text scan expected_cache_def matches_map_Lit)
  from a b value_part_prefix [of t] value_part_no_marker [of t] show ?thesis
    by simp
qed

theorem C7_text_without_tags_witness:
  "valueText (extract_views sample_parse (Text plain_text)) = plain_text
   \<and> cachePluginContext (extract_views sample_parse (Text plain_text)) = []
   \<and> valueText (extract_views sample_parse (Text text_with_relations)) = ''hello''"
proof -
  have "list_all (\<lambda>i. view_tag_at (drop i plain_text) = None) [0..<length plain_text]"
    by code_simp
  then have h1: "\<forall>i<length plain_text. view_tag_at (drop i plain_text) = None"
    by (rule no_tag_by_list)
  have "list_all (\<lambda>i. take (length relations_marker) (drop i plain_text) \<noteq> relations_marker)
          [0..<length plain_text]"
    by code_simp
  then have h2: "\<forall>i<length plain_text.
      take (length relations_marker) (drop i plain_text) \<noteq> relations_marker"
    by (rule no_marker_by_list)
  have "list_all (\<lambda>i. view_tag_at (drop i text_with_relations) = None)
          [0..<length text_with_relations]"
    by code_simp
  then have h3: "\<forall>i<length text_with_relations. view_tag_at (drop i text_with_relations) = None"
    by (rule no_tag_by_list)
  have v: "value_part text_with_relations = ''hello''"
    by code_simp
  have vp: "value_part plain_text = plain_text"
    by code_simp
  from C7_text_without_tags [OF h1, of sample_parse] h2
       C7_text_without_tags [OF h3, of sample_parse] v vp
  show ?thesis by simp
qed

text \<open>
  C7 as stated returns the whole text. A text without tags that ends in a list of
  relations comes back without that list.
\<close>

theorem C7_relations_suffix_counterexample:
  "matches (regex_scan view_tag_at text_with_relations) = []
   \<and> list_all (\<lambda>i. view_tag_at (drop i text_with_relations) = None)
        [0..<length text_with_relations]
   \<and> valueText (extract_views sample_parse (Text text_with_relations)) = ''hello''
   \<and> valueText (extract_views sample_parse (Text text_with_relations)) \<noteq> text_with_relations
   \<and> cachePluginContext (extract_views sample_parse (Text text_with_relations)) = []"
  by code_simp

lemma replaceAll_backslash_n:
  "replaceAll [CHR 0x5C, CHR ''n''] [CHR 0x0A] (a @ [CHR 0x5C, CHR ''n''] @ b)
     = replaceAll [CHR 0x5C, CHR ''n''] [CHR 0x0A] a @ [CHR 0x0A]
       @ replaceAll [CHR 0x5C, CHR ''n''] [CHR 0x0A] b"
proof (induction a rule: length_induct)
  case (1 a)
  show ?case
  proof (cases a)
    case Nil
    then show ?thesis by simp
  next
    case (Cons c cs)
    show ?thesis
    proof (cases "c = CHR 0x5C \<and> (\<exists>cs'. cs = CHR ''n'' # cs')")
      case True
      then obtain cs' where cs: "cs = CHR ''n'' # cs'" and c: "c = CHR 0x5C" by blast
      have "length cs' < length a" by (simp add: Cons cs)
      with 1 have "replaceAll [CHR 0x5C, CHR ''n''] [CHR 0x0A] (cs' @ [CHR 0x5C, CHR ''n''] @ b)
         = replaceAll [CHR 0x5C, CHR ''n''] [CHR 0x0A] cs' @ [CHR 0x0A]
           @ replaceAll [CHR 0x5C, CHR ''n''] [CHR 0x0A] b"
        by blast
      then show ?thesis by (simp add: Cons cs c)
    next
      case False
      have "length cs < length a" by (simp add: Cons)
      with 1 have ih: "replaceAll [CHR 0x5C, CHR ''n''] [CHR 0x0A] (cs @ [CHR 0x5C, CHR ''n''] @ b)
         = replaceAll [CHR 0x5C, CHR ''n''] [CHR 0x0A] cs @ [CHR 0x0A]
           @ replaceAll [CHR 0x5C, CHR ''n''] [CHR 0x0A] b"
        by blast
      from False have n1: "take 2 (c # cs) \<noteq> [CHR 0x5C, CHR ''n'']"
        by (cases cs) auto
      from False have n2: "take 2 (c # cs @ [CHR 0x5C, CHR ''n''] @ b) \<noteq> [CHR 0x5C, CHR ''n'']"
        by (cases cs) auto
      from n1 n2 ih show ?thesis by (simp add: Cons)
    qed
  qed
qed

lemma replaceAll_no_backslash:
  "CHR 0x5C \<notin> set s \<Longrightarrow> replaceAll [CHR 0x5C, CHR ''n''] rep s = s"
proof (induction s)
  case Nil
  then show ?case by simp
next
  case (Cons c cs)
  then have "take 2 (c # cs) \<noteq> [CHR 0x5C, CHR ''n'']" by (cases cs) auto
  with Cons show ?case by auto
qed

lemma member_view_entry_result:
  "member ''result'' (view_entry j) = Inr (Some (JStr (formatMarkdownVal (result_or_empty j))))"
  by (simp add: view_entry_def update_conv')

lemma member_view_entry_other:
  "k \<noteq> ''result'' \<Longrightarrow> member k (view_entry j) = Inr (map_of (spread j) k)"
  by (simp add: view_entry_def update_conv')

lemma formatMarkdownVal_Nil: "formatMarkdownVal [] = []"
  by (simp add: formatMarkdownVal_def replace_pure_def)

lemma not_word_equals: "\<not> is_word CHR ''=''"
  by (simp add: is_word_def)

lemma glued_attr_at_match:
  assumes len: "length tag' = length tag"
    and ci: "map lower_ascii tag' = map lower_ascii tag"
    and w: "\<forall>c\<in>set w. is_word c"
    and v: "v \<noteq> []" "CHR ''>'' \<notin> set v"
  shows "glued_attr_at tag (tag' @ w @ CHR ''='' # v @ CHR ''>'' # rest)
           = Some (length tag + length w + 1 + length v + 1)"
proof -
  let ?s = "tag' @ w @ CHR ''='' # v @ CHR ''>'' # rest"
  have a: "starts_with_ci tag ?s"
    using len ci by (simp add: starts_with_ci_def)
  have s1: "drop (length tag) ?s = w @ CHR ''='' # v @ CHR ''>'' # rest"
    using len by simp
  have tw: "takeWhile is_word (w @ CHR ''='' # v @ CHR ''>'' # rest) = w"
    using w not_word_equals by (simp add: takeWhile_append2)
  have s2: "drop (length w) (w @ CHR ''='' # v @ CHR ''>'' # rest) = CHR ''='' # v @ CHR ''>'' # rest"
    by simp
  from v(2) have "\<forall>c\<in>set v. c \<noteq> CHR ''>''" by auto
  then have tv: "takeWhile (\<lambda>c. c \<noteq> CHR ''>'') (v @ CHR ''>'' # rest) = v"
    by (simp add: takeWhile_append2)
  have "glued_attr_at tag ?s =
      (if \<not> starts_with_ci tag ?s then None
       else if v = [] \<or> drop (length v) (v @ CHR ''>'' # rest) = [] then None
            else Some (length tag + length w + 1 + length v + 1))"
    unfolding glued_attr_at_def Let_def s1 tw s2 by (simp add: tv)
  with a v(1) show ?thesis by simp
qed

lemma replace_pure_glued:
  assumes len: "length tag' = length tag"
    and ci: "map lower_ascii tag' = map lower_ascii tag"
    and ne: "tag \<noteq> []"
    and w: "\<forall>c\<in>set w. is_word c"
    and v: "v \<noteq> []" "CHR ''>'' \<notin> set v"
  shows "replace_pure (glued_attr_at tag) (spaced_attr tag) (tag' @ w @ ''='' @ v @ ''>'' @ rest)
           = tag @ '' '' @ w @ ''='' @ v @ ''>''
             @ replace_pure (glued_attr_at tag) (spaced_attr tag) rest"
proof -
  let ?m = "tag' @ w @ ''='' @ v @ ''>''"
  from len ne obtain c cs where t: "tag' = c # cs" by (cases tag') auto
  have m: "glued_attr_at tag (?m @ rest) = Some (length ?m)"
    using glued_attr_at_match [OF len ci w v, of rest] len by simp
  have "regex_scan (glued_attr_at tag) (c # (cs @ w @ ''='' @ v @ ''>'' @ rest))
      = Match (take (length ?m) (?m @ rest))
        # regex_scan (glued_attr_at tag) (drop (length ?m) (?m @ rest))"
    using m by (subst regex_scan.simps) (simp add: t)
  then have scan: "regex_scan (glued_attr_at tag) (?m @ rest)
      = Match ?m # regex_scan (glued_attr_at tag) rest"
    by (simp add: t)
  have sp: "spaced_attr tag ?m = tag @ '' '' @ w @ ''='' @ v @ ''>''"
    using len by (simp add: spaced_attr_def butlast_append)
  have "replace_pure (glued_attr_at tag) (spaced_attr tag) (?m @ rest)
      = spaced_attr tag ?m @ replace_pure (glued_attr_at tag) (spaced_attr tag) rest"
    unfolding replace_pure_def scan by simp
  then have "replace_pure (glued_attr_at tag) (spaced_attr tag) (?m @ rest)
      = (tag @ '' '' @ w @ ''='' @ v @ ''>'')
        @ replace_pure (glued_attr_at tag) (spaced_attr tag) rest"
    by (simp only: sp)
  then show ?thesis by simp
qed

text \<open>
  C10. When the payload of a fragment parses to a value that can be cached, the
  replacer appends to the cache the view of that value: its \<^verbatim>\<open>result\<close> is the text
  that \<^verbatim>\<open>formatMarkdownVal\<close> makes of the parsed result, every other member is the one
  of the parsed value (for a parsed object, its own members). The parsed result counts
  as the empty string when it is missing, and the empty string stays empty.
  \<^verbatim>\<open>formatMarkdownVal\<close> is three passes: in the first every backslash followed by
  \<^verbatim>\<open>n\<close> becomes one line feed, whatever stands around it; each of the other two puts
  a space between a tag name (\<^verbatim>\<open>table\<close>, then \<^verbatim>\<open>tr\<close>, in any case) and an attribute
  glued to it.
\<close>

theorem C10_cached_result_is_formatted:
  fixes parse :: "string \<Rightarrow> 'n json option" and st :: "'n memo"
  assumes parsed: "parse (pluginVal m) = Some j" and ok: "cacheable j"
  shows "replacer parse m st
           = (placeholder (cacheIndex st),
              st\<lparr>cachePluginContext := cachePluginContext st @ [view_entry j],
                 cacheIndex := cacheIndex st + 1\<rparr>)
       \<and> member ''result'' (view_entry j)
           = Inr (Some (JStr (formatMarkdownVal (result_or_empty j))))
       \<and> (\<forall>k. k \<noteq> ''result'' \<longrightarrow> member k (view_entry j) = Inr (map_of (spread j) k))
       \<and> result_or_empty (JObj props)
           = (case map_of props ''result'' of Some (JStr s) \<Rightarrow> s | _ \<Rightarrow> [])
       \<and> spread (JObj props) = props
       \<and> formatMarkdownVal [] = []
       \<and> formatMarkdownVal val
           = replace_pure (glued_attr_at ''<tr'') (spaced_attr ''<tr'')
               (replace_pure (glued_attr_at ''<table'') (spaced_attr ''<table'')
                  (replaceAll [CHR 0x5C, CHR ''n''] [CHR 0x0A] val))
       \<and> replaceAll [CHR 0x5C, CHR ''n''] [CHR 0x0A] (a @ [CHR 0x5C, CHR ''n''] @ b)
           = replaceAll [CHR 0x5C, CHR ''n''] [CHR 0x0A] a @ [CHR 0x0A]
             @ replaceAll [CHR 0x5C, CHR ''n''] [CHR 0x0A] b
       \<and> (length tag' = length tag \<and> map lower_ascii tag' = map lower_ascii tag \<and> tag \<noteq> []
            \<and> (\<forall>c\<in>set w. is_word c) \<and> v \<noteq> [] \<and> CHR ''>'' \<notin> set v \<longrightarrow>
          replace_pure (glued_attr_at tag) (spaced_attr tag) (tag' @ w @ ''='' @ v @ ''>'' @ rest)
            = tag @ '' '' @ w @ ''='' @ v @ ''>''
              @ replace_pure (glued_attr_at tag) (spaced_attr tag) rest)"
proof -
  from parsed ok have wf: "well_formed parse m"
    by (simp add: well_formed_def)
  from parsed ok have v: "view_of parse m = Some (view_entry j)"
    by (simp add: view_of_def)
  have a: "replacer parse m st
           = (placeholder (cacheIndex st),
              st\<lparr>cachePluginContext := cachePluginContext st @ [view_entry j],
                 cacheIndex := cacheIndex st + 1\<rparr>)"
    using replacer_well_formed [OF wf, of st] by (simp add: v)
  have b: "result_or_empty (JObj props)
           = (case map_of props ''result'' of Some (JStr s) \<Rightarrow> s | _ \<Rightarrow> [])"
    by (simp add: result_or_empty_def)
  have c: "\<forall>k. k \<noteq> ''result'' \<longrightarrow> member k (view_entry j) = Inr (map_of (spread j) k)"
    by (simp add: member_view_entry_other)
  have d: "length tag' = length tag \<and> map lower_ascii tag' = map lower_ascii tag \<and> tag \<noteq> []
            \<and> (\<forall>c\<in>set w. is_word c) \<and> v \<noteq> [] \<and> CHR ''>'' \<notin> set v \<longrightarrow>
          replace_pure (glued_attr_at tag) (spaced_attr tag) (tag' @ w @ ''='' @ v @ ''>'' @ rest)
            = tag @ '' '' @ w @ ''='' @ v @ ''>''
              @ replace_pure (glued_attr_at tag) (spaced_attr tag) rest"
    using replace_pure_glued [of tag' tag w v rest] by blast
  have e: "formatMarkdownVal val
           = replace_pure (glued_attr_at ''<tr'') (spaced_attr ''<tr'')
               (replace_pure (glued_attr_at ''<table'') (spaced_attr ''<table'')
                  (replaceAll [CHR 0x5C, CHR ''n''] [CHR 0x0A] val))"
    by (simp add: formatMarkdownVal_def)
  have f: "spread (JObj props) = props"
    by simp
  from a member_view_entry_result [of j] c b f formatMarkdownVal_Nil e
    replaceAll_backslash_n [of a b] d
  show ?thesis by blast
qed

theorem C10_cached_result_is_formatted_witness:
  "replacer sample_parse sample_view_tag st0
     = (''<custom-view>0</custom-view>'',
        st0\<lparr>cachePluginContext :=
              [JObj [(''name'', JStr ''ls''), (''status'', JStr ''completed''),
                     (''result'', JStr (''a'' @ [CHR 0x0A] @ ''<table border=1>''))]],
            cacheIndex := 1\<rparr>)
   \<and> member ''name'' (view_entry sample_record) = member ''name'' sample_record
   \<and> replace_pure (glued_attr_at ''<table'') (spaced_attr ''<table'') ''<TABLEborder=1>''
       = ''<table border=1>''"
proof -
  have g: "length ''<TABLE'' = length ''<table''
      \<and> map lower_ascii ''<TABLE'' = map lower_ascii ''<table'' \<and> ''<table'' \<noteq> []
      \<and> (\<forall>c\<in>set ''border''. is_word c) \<and> ''1'' \<noteq> [] \<and> CHR ''>'' \<notin> set ''1''"
    by (simp add: lower_ascii_def is_word_def)
  have r0: "replace_pure (glued_attr_at ''<table'') (spaced_attr ''<table'') [] = []"
    by (simp add: replace_pure_def)
  have p: "sample_parse (pluginVal sample_view_tag) = Some sample_record"
    by code_simp
  have c: "cacheable sample_record"
    by code_simp
  have e: "view_entry sample_record
      = JObj [(''name'', JStr ''ls''), (''status'', JStr ''completed''),
              (''result'', JStr (''a'' @ [CHR 0x0A] @ ''<table border=1>''))]"
    by code_simp
  have ph: "placeholder 0 = ''<custom-view>0</custom-view>''"
    by code_simp
  have s: "cacheIndex st0 = 0" "cachePluginContext st0 = []"
    by (simp_all add: st0_def)
  have n: "member ''name'' sample_record = Inr (map_of (spread sample_record) ''name'')"
    by (simp add: sample_record_def)
  note inst = C10_cached_result_is_formatted
         [where parse = sample_parse and m = sample_view_tag and j = sample_record
            and st = st0 and props = "[]" and val = "[]" and a = "[]" and b = "[]"
            and tag = "''<table''" and tag' = "''<TABLE''" and w = "''border''" and v = "''1''"
            and rest = "[]", OF p c]
  from inst have r: "replacer sample_parse sample_view_tag st0
           = (placeholder (cacheIndex st0),
              st0\<lparr>cachePluginContext := cachePluginContext st0 @ [view_entry sample_record],
                  cacheIndex := cacheIndex st0 + 1\<rparr>)"
    by (rule conjunct1)
  from inst have "\<forall>k. k \<noteq> ''result'' \<longrightarrow>
      member k (view_entry sample_record) = Inr (map_of (spread sample_record) k)"
    by blast
  then have "member ''name'' (view_entry sample_record)
      = Inr (map_of (spread sample_record) ''name'')"
    by simp
  with n have k: "member ''name'' (view_entry sample_record) = member ''name'' sample_record"
    by simp
  from r have "replacer sample_parse sample_view_tag st0
     = (''<custom-view>0</custom-view>'',
        st0\<lparr>cachePluginContext :=
              [JObj [(''name'', JStr ''ls''), (''status'', JStr ''completed''),
                     (''result'', JStr (''a'' @ [CHR 0x0A] @ ''<table border=1>''))]],
            cacheIndex := 1\<rparr>)"
    by (simp only: e ph s append_Nil add_0)
  moreover from inst g
  have "replace_pure (glued_attr_at ''<table'') (spaced_attr ''<table'')
          (''<TABLE'' @ ''border'' @ ''='' @ ''1'' @ ''>'' @ [])
       = ''<table'' @ '' '' @ ''border'' @ ''='' @ ''1'' @ ''>''
         @ replace_pure (glued_attr_at ''<table'') (spaced_attr ''<table'') []"
    by blast
  then have "replace_pure (glued_attr_at ''<table'') (spaced_attr ''<table'') ''<TABLEborder=1>''
       = ''<table border=1>''"
    by (simp add: r0)
  ultimately show ?thesis using k by blast
qed

section \<open>Properties of the renderer and of the robot context\<close>

lemma status_lookup_known:
  "status_lookup ''todo'' = \<lparr>bgClass = Some ''bg-gray-500'', icon = Some ClockCircleOutlined\<rparr>"
  "status_lookup ''runing'' = \<lparr>bgClass = Some ''bg-blue-500'', icon = Some LoadingOutlined\<rparr>"
  "status_lookup ''failed'' = \<lparr>bgClass = Some ''bg-red-500'', icon = Some CloseOutlined\<rparr>"
  "status_lookup ''completed'' = \<lparr>bgClass = Some ''bg-green-500'', icon = Some CheckOutlined\<rparr>"
  by (simp_all add: status_lookup_def pluginViewStatusMapper_def)

lemma status_lookup_unknown:
  "key \<notin> {''todo'', ''runing'', ''failed'', ''completed''} \<Longrightarrow>
     status_lookup key = \<lparr>bgClass = None, icon = None\<rparr>"
  by (simp add: status_lookup_def pluginViewStatusMapper_def)

text \<open>
  An object prints as a property key unless it has a member \<^verbatim>\<open>toString\<close> of its own,
  with which the conversion throws.
\<close>

lemma property_key_object:
  "property_key num_text (Some (JObj [])) = Inr ''[object Object]''"
  "property_key num_text (Some (JObj [(''toString'', v)])) = Inl TypeError"
  "property_key num_text (Some (JArr [JStr ''todo''])) = Inr ''todo''"
  by simp_all

lemma custom_view_status:
  assumes "to_index children = Some i" "i < length cache" "cache ! i = JObj props"
    and "map_of props ''status'' = Some (JStr key)"
  shows "custom_view num_text to_index cache children
     = Inr (View
         \<lparr>header_class =
            classNames ''flex px-4 md:px-6 py-2 items-center text-white text-sm''
              (bgClass (status_lookup key)),
          header_name = map_of props ''name'',
          header_icon = icon (status_lookup key),
          body = (if truthy num_text (map_of props ''result'')
                  then Markdown (map_of props ''result'')
                  else ErrMsg (map_of props ''err_msg''))\<rparr>)"
  using assms by (simp add: custom_view_def Let_def)

text \<open>
  C5. A status string other than \<^verbatim>\<open>todo\<close>, \<^verbatim>\<open>runing\<close>, \<^verbatim>\<open>failed\<close> and \<^verbatim>\<open>completed\<close>
  looks up neither a background class nor an icon, and the renderer still returns the
  view of a cache entry with that status: its header has the base classes only and no
  icon. Each of the four known statuses looks up its own class and icon, and the
  renderer returns the view of a cache entry with that status with this class after the
  base classes and this icon in its header.
\<close>

theorem C5_status_lookup:
  fixes cache :: "'n json list" and props :: "(string \<times> 'n json) list"
    and to_index :: "string \<Rightarrow> nat option" and children :: string and i :: nat
    and num_text :: "'n \<Rightarrow> string"
  defines "found \<equiv> \<lambda>key. to_index children = Some i \<and> i < length cache
              \<and> cache ! i = JObj props \<and> map_of props ''status'' = Some (JStr key)"
  defines "shown \<equiv> \<lambda>classes icon_shown.
              custom_view num_text to_index cache children
                = Inr (View
                    \<lparr>header_class = classes,
                     header_name = map_of props ''name'',
                     header_icon = icon_shown,
                     body = (if truthy num_text (map_of props ''result'')
                             then Markdown (map_of props ''result'')
                             else ErrMsg (map_of props ''err_msg''))\<rparr>)"
  shows "(key \<notin> {''todo'', ''runing'', ''failed'', ''completed''} \<longrightarrow>
            status_lookup key = \<lparr>bgClass = None, icon = None\<rparr>
          \<and> (found key \<longrightarrow>
               shown ''flex px-4 md:px-6 py-2 items-center text-white text-sm'' None))
       \<and> status_lookup ''todo''
           = \<lparr>bgClass = Some ''bg-gray-500'', icon = Some ClockCircleOutlined\<rparr>
       \<and> status_lookup ''runing''
           = \<lparr>bgClass = Some ''bg-blue-500'', icon = Some LoadingOutlined\<rparr>
       \<and> status_lookup ''failed''
           = \<lparr>bgClass = Some ''bg-red-500'', icon = Some CloseOutlined\<rparr>
       \<and> status_lookup ''completed''
           = \<lparr>bgClass = Some ''bg-green-500'', icon = Some CheckOutlined\<rparr>
       \<and> (found ''todo'' \<longrightarrow>
            shown ''flex px-4 md:px-6 py-2 items-center text-white text-sm bg-gray-500''
              (Some ClockCircleOutlined))
       \<and> (found ''runing'' \<longrightarrow>
            shown ''flex px-4 md:px-6 py-2 items-center text-white text-sm bg-blue-500''
              (Some LoadingOutlined))
       \<and> (found ''failed'' \<longrightarrow>
            shown ''flex px-4 md:px-6 py-2 items-center text-white text-sm bg-red-500''
              (Some CloseOutlined))
       \<and> (found ''completed'' \<longrightarrow>
            shown ''flex px-4 md:px-6 py-2 items-center text-white text-sm bg-green-500''
              (Some CheckOutlined))"
proof -
  have view: "found k \<Longrightarrow>
      shown (classNames ''flex px-4 md:px-6 py-2 items-center text-white text-sm''
               (bgClass (status_lookup k)))
            (icon (status_lookup k))" for k
    unfolding found_def shown_def
    using custom_view_status [of to_index children i cache props k num_text] by blast
  have a: "key \<notin> {''todo'', ''runing'', ''failed'', ''completed''} \<longrightarrow>
            status_lookup key = \<lparr>bgClass = None, icon = None\<rparr>
          \<and> (found key \<longrightarrow>
               shown ''flex px-4 md:px-6 py-2 items-center text-white text-sm'' None)"
  proof
    assume k: "key \<notin> {''todo'', ''runing'', ''failed'', ''completed''}"
    have empty: "status_lookup key = \<lparr>bgClass = None, icon = None\<rparr>"
      using k by (rule status_lookup_unknown)
    have "found key \<longrightarrow>
        shown ''flex px-4 md:px-6 py-2 items-center text-white text-sm'' None"
    proof
      assume "found key"
      from view [OF this]
      show "shown ''flex px-4 md:px-6 py-2 items-center text-white text-sm'' None"
        by (simp add: empty classNames_def)
    qed
    with empty
    show "status_lookup key = \<lparr>bgClass = None, icon = None\<rparr>
          \<and> (found key \<longrightarrow>
               shown ''flex px-4 md:px-6 py-2 items-center text-white text-sm'' None)"
      by blast
  qed
  have b1: "found ''todo'' \<longrightarrow>
            shown ''flex px-4 md:px-6 py-2 items-center text-white text-sm bg-gray-500''
              (Some ClockCircleOutlined)"
  proof
    assume "found ''todo''"
    from view [OF this]
    show "shown ''flex px-4 md:px-6 py-2 items-center text-white text-sm bg-gray-500''
              (Some ClockCircleOutlined)"
      by (simp add: status_lookup_known classNames_def)
  qed
  have b2: "found ''runing'' \<longrightarrow>
            shown ''flex px-4 md:px-6 py-2 items-center text-white text-sm bg-blue-500''
              (Some LoadingOutlined)"
  proof
    assume "found ''runing''"
    from view [OF this]
    show "shown ''flex px-4 md:px-6 py-2 items-center text-white text-sm bg-blue-500''
              (Some LoadingOutlined)"
      by (simp add: status_lookup_known classNames_def)
  qed
  have b3: "found ''failed'' \<longrightarrow>
            shown ''flex px-4 md:px-6 py-2 items-center text-white text-sm bg-red-500''
              (Some CloseOutlined)"
  proof
    assume "found ''failed''"
    from view [OF this]
    show "shown ''flex px-4 md:px-6 py-2 items-center text-white text-sm bg-red-500''
              (Some CloseOutlined)"
      by (simp add: status_lookup_known classNames_def)
  qed
  have b4: "found ''completed'' \<longrightarrow>
            shown ''flex px-4 md:px-6 py-2 items-center text-white text-sm bg-green-500''
              (Some CheckOutlined)"
  proof
    assume "found ''completed''"
    from view [OF this]
    show "shown ''flex px-4 md:px-6 py-2 items-center text-white text-sm bg-green-500''
              (Some CheckOutlined)"
      by (simp add: status_lookup_known classNames_def)
  qed
  from a status_lookup_known b1 b2 b3 b4 show ?thesis by blast
qed

lemma status_views_found:
  "sample_index ''0'' = Some 0 \<and> 0 < length status_views
   \<and> status_views ! 0 = JObj [(''name'', JStr ''ls''), (''status'', JStr ''pending''), (''err_msg'', JStr ''no'')]
   \<and> map_of [(''name'', JStr ''ls''), (''status'', JStr ''pending''), (''err_msg'', JStr ''no'') :: string \<times> unit json]
         ''status'' = Some (JStr ''pending'')"
  "sample_index ''1'' = Some 1 \<and> 1 < length status_views
   \<and> status_views ! 1 = JObj [(''name'', JStr ''ls''), (''status'', JStr ''todo''), (''err_msg'', JStr ''no'')]
   \<and> map_of [(''name'', JStr ''ls''), (''status'', JStr ''todo''), (''err_msg'', JStr ''no'') :: string \<times> unit json]
         ''status'' = Some (JStr ''todo'')"
  "sample_index ''2'' = Some 2 \<and> 2 < length status_views
   \<and> status_views ! 2 = JObj [(''name'', JStr ''ls''), (''status'', JStr ''runing''), (''err_msg'', JStr ''no'')]
   \<and> map_of [(''name'', JStr ''ls''), (''status'', JStr ''runing''), (''err_msg'', JStr ''no'') :: string \<times> unit json]
         ''status'' = Some (JStr ''runing'')"
  "sample_index ''3'' = Some 3 \<and> 3 < length status_views
   \<and> status_views ! 3 = JObj [(''name'', JStr ''ls''), (''status'', JStr ''failed''), (''err_msg'', JStr ''no'')]
   \<and> map_of [(''name'', JStr ''ls''), (''status'', JStr ''failed''), (''err_msg'', JStr ''no'') :: string \<times> unit json]
         ''status'' = Some (JStr ''failed'')"
  "sample_index ''4'' = Some 4 \<and> 4 < length status_views
   \<and> status_views ! 4 = JObj [(''name'', JStr ''ls''), (''status'', JStr ''completed''), (''err_msg'', JStr ''no'')]
   \<and> map_of [(''name'', JStr ''ls''), (''status'', JStr ''completed''), (''err_msg'', JStr ''no'') :: string \<times> unit json]
         ''status'' = Some (JStr ''completed'')"
  by (simp_all add: sample_index_def status_views_def status_view_def)

theorem C5_status_lookup_witness:
  "''pending'' \<notin> {''todo'', ''runing'', ''failed'', ''completed''}
   \<and> status_lookup ''pending'' = \<lparr>bgClass = None, icon = None\<rparr>
   \<and> custom_view unit_text sample_index status_views ''0''
       = Inr (View
           \<lparr>header_class = ''flex px-4 md:px-6 py-2 items-center text-white text-sm'',
            header_name = Some (JStr ''ls''), header_icon = None,
            body = ErrMsg (Some (JStr ''no''))\<rparr>)
   \<and> custom_view unit_text sample_index status_views ''1''
       = Inr (View
           \<lparr>header_class = ''flex px-4 md:px-6 py-2 items-center text-white text-sm bg-gray-500'',
            header_name = Some (JStr ''ls''), header_icon = Some ClockCircleOutlined,
            body = ErrMsg (Some (JStr ''no''))\<rparr>)
   \<and> custom_view unit_text sample_index status_views ''2''
       = Inr (View
           \<lparr>header_class = ''flex px-4 md:px-6 py-2 items-center text-white text-sm bg-blue-500'',
            header_name = Some (JStr ''ls''), header_icon = Some LoadingOutlined,
            body = ErrMsg (Some (JStr ''no''))\<rparr>)
   \<and> custom_view unit_text sample_index status_views ''3''
       = Inr (View
           \<lparr>header_class = ''flex px-4 md:px-6 py-2 items-center text-white text-sm bg-red-500'',
            header_name = Some (JStr ''ls''), header_icon = Some CloseOutlined,
            body = ErrMsg (Some (JStr ''no''))\<rparr>)
   \<and> custom_view unit_text sample_index status_views ''4''
       = Inr (View
           \<lparr>header_class = ''flex px-4 md:px-6 py-2 items-center text-white text-sm bg-green-500'',
            header_name = Some (JStr ''ls''), header_icon = Some CheckOutlined,
            body = ErrMsg (Some (JStr ''no''))\<rparr>)"
proof -
  have k: "''pending'' \<notin> {''todo'', ''runing'', ''failed'', ''completed''}" by simp
  note unknown = C5_status_lookup
         [where key = "''pending''" and to_index = sample_index and children = "''0''"
            and i = 0 and cache = status_views and num_text = unit_text
            and props = "[(''name'', JStr ''ls''), (''status'', JStr ''pending''),
                          (''err_msg'', JStr ''no'')]",
          THEN conjunct1, THEN mp, OF k]
  from unknown have l0: "status_lookup ''pending'' = \<lparr>bgClass = None, icon = None\<rparr>"
    by (rule conjunct1)
  from unknown [THEN conjunct2, THEN mp, OF status_views_found(1)]
  have v0: "custom_view unit_text sample_index status_views ''0''
       = Inr (View
           \<lparr>header_class = ''flex px-4 md:px-6 py-2 items-center text-white text-sm'',
            header_name = Some (JStr ''ls''), header_icon = None,
            body = ErrMsg (Some (JStr ''no''))\<rparr>)"
    by simp
  from C5_status_lookup
         [where key = "''todo''" and to_index = sample_index and children = "''1''"
            and i = 1 and cache = status_views and num_text = unit_text
            and props = "[(''name'', JStr ''ls''), (''status'', JStr ''todo''),
                          (''err_msg'', JStr ''no'')]",
          THEN conjunct2, THEN conjunct2, THEN conjunct2, THEN conjunct2, THEN conjunct2, THEN conjunct1, THEN mp, OF status_views_found(2)]
  have v1: "custom_view unit_text sample_index status_views ''1''
       = Inr (View
           \<lparr>header_class = ''flex px-4 md:px-6 py-2 items-center text-white text-sm bg-gray-500'',
            header_name = Some (JStr ''ls''), header_icon = Some ClockCircleOutlined,
            body = ErrMsg (Some (JStr ''no''))\<rparr>)"
    by simp
  from C5_status_lookup
         [where key = "''runing''" and to_index = sample_index and children = "''2''"
            and i = 2 and cache = status_views and num_text = unit_text
            and props = "[(''name'', JStr ''ls''), (''status'', JStr ''runing''),
                          (''err_msg'', JStr ''no'')]",
          THEN conjunct2, THEN conjunct2, THEN conjunct2, THEN conjunct2, THEN conjunct2, THEN conjunct2, THEN conjunct1, THEN mp, OF status_views_found(3)]
  have v2: "custom_view unit_text sample_index status_views ''2''
       = Inr (View
           \<lparr>header_class = ''flex px-4 md:px-6 py-2 items-center text-white text-sm bg-blue-500'',
            header_name = Some (JStr ''ls''), header_icon = Some LoadingOutlined,
            body = ErrMsg (Some (JStr ''no''))\<rparr>)"
    by simp
  from C5_status_lookup
         [where key = "''failed''" and to_index = sample_index and children = "''3''"
            and i = 3 and cache = status_views and num_text = unit_text
            and props = "[(''name'', JStr ''ls''), (''status'', JStr ''failed''),
                          (''err_msg'', JStr ''no'')]",
          THEN conjunct2, THEN conjunct2, THEN conjunct2, THEN conjunct2, THEN conjunct2, THEN conjunct2, THEN conjunct2, THEN conjunct1, THEN mp, OF status_views_found(4)]
  have v3: "custom_view unit_text sample_index status_views ''3''
       = Inr (View
           \<lparr>header_class = ''flex px-4 md:px-6 py-2 items-center text-white text-sm bg-red-500'',
            header_name = Some (JStr ''ls''), header_icon = Some CloseOutlined,
            body = ErrMsg (Some (JStr ''no''))\<rparr>)"
    by simp
  from C5_status_lookup
         [where key = "''completed''" and to_index = sample_index and children = "''4''"
            and i = 4 and cache = status_views and num_text = unit_text
            and props = "[(''name'', JStr ''ls''), (''status'', JStr ''completed''),
                          (''err_msg'', JStr ''no'')]",
          THEN conjunct2, THEN conjunct2, THEN conjunct2, THEN conjunct2, THEN conjunct2, THEN conjunct2, THEN conjunct2, THEN conjunct2, THEN mp, OF status_views_found(5)]
  have v4: "custom_view unit_text sample_index status_views ''4''
       = Inr (View
           \<lparr>header_class = ''flex px-4 md:px-6 py-2 items-center text-white text-sm bg-green-500'',
            header_name = Some (JStr ''ls''), header_icon = Some CheckOutlined,
            body = ErrMsg (Some (JStr ''no''))\<rparr>)"
    by simp
  from k l0 v0 v1 v2 v3 v4 show ?thesis by blast
qed

text \<open>
  C6. When the text of a placeholder denotes no array index, or an index at or beyond
  the length of the cache, the renderer returns the text of the placeholder as it came,
  and raises nothing.
\<close>

theorem C6_missing_cache_entry:
  assumes "to_index children = None \<or> (\<exists>i. to_index children = Some i \<and> length cache \<le> i)"
  shows "custom_view num_text to_index cache children = Inr (Children children)"
  using assms by (auto simp: custom_view_def Let_def)

theorem C6_missing_cache_entry_witness:
  "sample_index ''7'' = Some 7 \<and> length [pending_view] \<le> 7
   \<and> custom_view unit_text sample_index [pending_view] ''7'' = Inr (Children ''7'')
   \<and> sample_index ''view'' = None
   \<and> custom_view unit_text sample_index [pending_view] ''view'' = Inr (Children ''view'')"
proof -
  have a: "sample_index ''7'' = Some 7 \<and> length [pending_view] \<le> 7"
    by (simp add: sample_index_def)
  have b: "sample_index ''view'' = None"
    by (simp add: sample_index_def)
  from a have h7: "sample_index ''7'' = None
      \<or> (\<exists>i. sample_index ''7'' = Some i \<and> length [pending_view] \<le> i)"
    by simp
  from b have hv: "sample_index ''view'' = None
      \<or> (\<exists>i. sample_index ''view'' = Some i \<and> length [pending_view] \<le> i)"
    by simp
  from C6_missing_cache_entry
         [where to_index = sample_index and children = "''7''" and cache = "[pending_view]"
            and num_text = unit_text, OF h7]
       C6_missing_cache_entry
         [where to_index = sample_index and children = "''view''" and cache = "[pending_view]"
            and num_text = unit_text, OF hv] a b
  show ?thesis by simp
qed

text \<open>
  C8. When parsing the context fails, \<^verbatim>\<open>getRobotContext\<close> returns the object with the
  empty strings as \<^verbatim>\<open>left\<close> and \<^verbatim>\<open>right\<close> and writes only the error to the console;
  the panes read from it are both the empty string, and reading them raises nothing.
\<close>

theorem C8_context_parse_failure:
  assumes "parse (context_text ctxt) = None"
  shows "getRobotContext parse (context_text ctxt)
           = (JObj [(''left'', JStr []), (''right'', JStr [])], [SyntaxError])
       \<and> left_right (fst (getRobotContext parse (context_text ctxt))) = Inr (JStr [], JStr [])"
  using assms by (simp add: getRobotContext_def left_right_def)

theorem C8_context_parse_failure_witness:
  "sample_parse (context_text (Text ''oops'')) = None
   \<and> getRobotContext sample_parse ''oops''
       = (JObj [(''left'', JStr []), (''right'', JStr [])], [SyntaxError])
   \<and> left_right (fst (getRobotContext sample_parse ''oops'')) = Inr (JStr [], JStr [])"
proof -
  have h: "sample_parse (context_text (Text ''oops'')) = None"
    by (simp add: sample_parse_def sample_record_text_def)
  from C8_context_parse_failure [where parse = sample_parse and ctxt = "Text ''oops''", OF h] h
  show ?thesis by (simp add: left_right_def)
qed

end
